theory Spec2Isabelle
  imports Complex_Main
begin

section \<open>Errors\<close>

text \<open>
  Every \<^verbatim>\<open>throw\<close> of the modelled code is a value of this type. A failing operation
  returns \<open>Inl (e, s)\<close>, where \<open>s\<close> is the state of the object at the moment of the throw,
  so that the effect of a failed operation can be stated.
\<close>

datatype js_error =
    RangeError_delete_middle  \<comment> \<open>"DataPoints that already synced to GPU cannot be delete in the middle"\<close>
  | RangeError_insert_middle  \<comment> \<open>"DataPoints cannot be inserted in the middle of the range ..."\<close>
  | Error_BUG                 \<comment> \<open>\<^verbatim>\<open>throw new Error('BUG')\<close> in updateDelete\<close>
  | Error_BUG_length          \<comment> \<open>"BUG! length after splice not expected."\<close>
  | TypeError_undefined       \<comment> \<open>property read or method call on \<^verbatim>\<open>undefined\<close>\<close>
  | RangeError_array_length   \<comment> \<open>\<^verbatim>\<open>new Float32Array(n)\<close>, \<^verbatim>\<open>new Array(n)\<close> with an invalid length \<open>n\<close>\<close>


section \<open>core/dataPointsBuffer.ts\<close>

text \<open>
  \<^verbatim>\<open>class DataPointsBuffer<T> extends Array<T>\<close>: the array's elements and the four
  counters, as the renderer and the statements about ranges of elements use the class.
  Here the counters and the indices hold integers and are modelled as \<open>int\<close>, and every
  slot of the array holds an element of \<open>'a\<close>: \<^verbatim>\<open>undefined\<close> is not an element, so
  \<^verbatim>\<open>super.pop()\<close> and \<^verbatim>\<open>super.shift()\<close> return \<^verbatim>\<open>undefined\<close> exactly on the empty array.

  The class takes more than that: arrays with empty slots, fractional and non-finite
  numbers. Section \<open>core/dataPointsBuffer.ts over all JavaScript values\<close> models it
  on all of its inputs, with the binary64 arithmetic of the language, and the lemmas
  \<open>push_ref\<close>, \<open>unshift_ref\<close>, \<open>pop_ref\<close>, \<open>shift_ref\<close> and \<open>splice_ref\<close> show that the
  methods of the two models agree on integer counters and arguments.
\<close>

record 'a DataPointsBuffer =
  items :: "'a list"
  pushed_back :: int
  pushed_front :: int
  poped_back :: int
  poped_front :: int

definition blength :: "'a DataPointsBuffer \<Rightarrow> int" where
  "blength b = int (length (items b))"

text \<open>\<^verbatim>\<open>constructor(...items)\<close>: every element counts as pushed to the back.\<close>

definition new_DataPointsBuffer :: "'a list \<Rightarrow> 'a DataPointsBuffer" where
  "new_DataPointsBuffer xs =
     \<lparr>items = xs, pushed_back = int (length xs), pushed_front = 0,
      poped_back = 0, poped_front = 0\<rparr>"

definition synced :: "'a DataPointsBuffer \<Rightarrow> 'a DataPointsBuffer" where
  "synced b = b\<lparr>pushed_back := 0, poped_back := 0, pushed_front := 0, poped_front := 0\<rparr>"

text \<open>\<^verbatim>\<open>_from_array\<close>: a buffer is returned as it is, a plain array is adopted.\<close>

fun from_array :: "'a list + 'a DataPointsBuffer \<Rightarrow> 'a DataPointsBuffer" where
  "from_array (Inr b) = b"
| "from_array (Inl arr) =
     \<lparr>items = arr, pushed_back = int (length arr), pushed_front = 0,
      poped_back = 0, poped_front = 0\<rparr>"

definition push :: "'a list \<Rightarrow> 'a DataPointsBuffer \<Rightarrow> 'a DataPointsBuffer" where
  "push its b =
     (let b1 = b\<lparr>pushed_back := pushed_back b + int (length its)\<rparr>
      in b1\<lparr>items := items b1 @ its\<rparr>)"

definition pop :: "'a DataPointsBuffer \<Rightarrow> 'a option \<times> 'a DataPointsBuffer" where
  "pop b =
     (let len = blength b in
      if items b = [] then (None, b)
      else
        let r = last (items b);
            b1 = b\<lparr>items := butlast (items b)\<rparr>
        in (Some r,
            if pushed_back b1 > 0 then b1\<lparr>pushed_back := pushed_back b1 - 1\<rparr>
            else if len - pushed_front b1 > 0 then b1\<lparr>poped_back := poped_back b1 + 1\<rparr>
            else b1\<lparr>pushed_front := pushed_front b1 - 1\<rparr>))"

definition unshift :: "'a list \<Rightarrow> 'a DataPointsBuffer \<Rightarrow> 'a DataPointsBuffer" where
  "unshift its b =
     (let b1 = b\<lparr>pushed_front := pushed_front b + int (length its)\<rparr>
      in b1\<lparr>items := its @ items b1\<rparr>)"

definition shift :: "'a DataPointsBuffer \<Rightarrow> 'a option \<times> 'a DataPointsBuffer" where
  "shift b =
     (let len = blength b in
      if items b = [] then (None, b)
      else
        let r = hd (items b);
            b1 = b\<lparr>items := tl (items b)\<rparr>
        in (Some r,
            if pushed_front b1 > 0 then b1\<lparr>pushed_front := pushed_front b1 - 1\<rparr>
            else if len - pushed_back b1 > 0 then b1\<lparr>poped_front := poped_front b1 + 1\<rparr>
            else b1\<lparr>pushed_back := pushed_back b1 - 1\<rparr>))"

text \<open>Calling \<^verbatim>\<open>pop()\<close> / \<^verbatim>\<open>shift()\<close> \<open>k\<close> times in a row.\<close>

fun pops :: "nat \<Rightarrow> 'a DataPointsBuffer \<Rightarrow> 'a DataPointsBuffer" where
  "pops 0 b = b"
| "pops (Suc k) b = pops k (snd (pop b))"

fun shifts :: "nat \<Rightarrow> 'a DataPointsBuffer \<Rightarrow> 'a DataPointsBuffer" where
  "shifts 0 b = b"
| "shifts (Suc k) b = shifts k (snd (shift b))"

subsection \<open>updateDelete\<close>

text \<open>
  The locals \<^verbatim>\<open>deleteCount\<close> and \<^verbatim>\<open>len\<close> are threaded with the object; the helper
  \<^verbatim>\<open>d(c)\<close> subtracts \<open>c\<close> from both and reports whether nothing is left to delete.
  Each of the four cases of the source is one function, in the source's order.
\<close>

type_synonym 'a del_state = "'a DataPointsBuffer \<times> int \<times> int"

definition d_helper :: "int \<Rightarrow> 'a del_state \<Rightarrow> 'a del_state \<times> bool" where
  "d_helper c s = (case s of (b, deleteCount, len) \<Rightarrow>
     ((b, deleteCount - c, len - c), deleteCount - c = 0))"

definition delete_case4 :: "int \<Rightarrow> 'a del_state \<Rightarrow>
    (js_error \<times> 'a DataPointsBuffer) + 'a DataPointsBuffer" where
  "delete_case4 start s = (case s of (b, deleteCount, len) \<Rightarrow>
     let c = min deleteCount (len - start);
         b1 = b\<lparr>pushed_back := pushed_back b - c\<rparr>
     in if snd (d_helper c (b1, deleteCount, len)) then Inr b1
        else Inl (Error_BUG, b1))"

definition delete_case3 :: "int \<Rightarrow> 'a del_state \<Rightarrow>
    (js_error \<times> 'a DataPointsBuffer) + 'a DataPointsBuffer" where
  "delete_case3 start s = (case s of (b, deleteCount, len) \<Rightarrow>
     if start > pushed_front b \<and> start < len - pushed_back b then
       if start + deleteCount < len - pushed_back b then
         Inl (RangeError_delete_middle, b)
       else
         let c = min deleteCount (len - start - pushed_back b);
             b1 = b\<lparr>poped_back := poped_back b + c\<rparr>;
             (s1, fin) = d_helper c (b1, deleteCount, len)
         in if fin then Inr b1 else delete_case4 start s1
     else delete_case4 start s)"

definition delete_case2 :: "int \<Rightarrow> 'a del_state \<Rightarrow>
    (js_error \<times> 'a DataPointsBuffer) + 'a DataPointsBuffer" where
  "delete_case2 start s = (case s of (b, deleteCount, len) \<Rightarrow>
     if start = pushed_front b then
       let c = min deleteCount (len - pushed_front b - pushed_back b);
           b1 = b\<lparr>poped_front := poped_front b + c\<rparr>;
           (s1, fin) = d_helper c (b1, deleteCount, len)
       in if fin then Inr b1 else delete_case3 start s1
     else delete_case3 start s)"

definition delete_case1 :: "int \<Rightarrow> 'a del_state \<Rightarrow>
    (js_error \<times> 'a DataPointsBuffer) + 'a DataPointsBuffer" where
  "delete_case1 start s = (case s of (b, deleteCount, len) \<Rightarrow>
     if start < pushed_front b then
       let c = min deleteCount (pushed_front b - start);
           b1 = b\<lparr>pushed_front := pushed_front b - c\<rparr>;
           (s1, fin) = d_helper c (b1, deleteCount, len)
       in if fin then Inr b1 else delete_case2 start s1
     else delete_case2 start s)"

definition updateDelete :: "int \<Rightarrow> int \<Rightarrow> int \<Rightarrow> 'a DataPointsBuffer \<Rightarrow>
    (js_error \<times> 'a DataPointsBuffer) + 'a DataPointsBuffer" where
  "updateDelete start deleteCount len b =
     (if deleteCount = 0 then Inr b else delete_case1 start (b, deleteCount, len))"

subsection \<open>updateInsert\<close>

definition updateInsert :: "int \<Rightarrow> int \<Rightarrow> int \<Rightarrow> 'a DataPointsBuffer \<Rightarrow>
    (js_error \<times> 'a DataPointsBuffer) + 'a DataPointsBuffer" where
  "updateInsert start insertCount len b =
     (if start \<le> pushed_front b then
        Inr (b\<lparr>pushed_front := pushed_front b + insertCount\<rparr>)
      else if start \<ge> len - pushed_back b then
        Inr (b\<lparr>pushed_back := pushed_back b + insertCount\<rparr>)
      else Inl (RangeError_insert_middle, b))"

subsection \<open>splice\<close>

text \<open>
  \<^verbatim>\<open>Array.prototype.splice\<close> (the \<^verbatim>\<open>super.splice\<close> call), for integer arguments: the
  start is taken relative to the end when negative and clamped into \<open>[0, length]\<close>, the
  delete count into \<open>[0, length - start]\<close>. It returns the removed elements and the new
  contents.
\<close>

definition array_splice :: "int \<Rightarrow> int \<Rightarrow> 'a list \<Rightarrow> 'a list \<Rightarrow> 'a list \<times> 'a list" where
  "array_splice start deleteCount its xs =
     (let len = int (length xs);
          actualStart = (if start < 0 then max (len + start) 0 else min start len);
          actualDeleteCount = min (max deleteCount 0) (len - actualStart)
      in (take (nat actualDeleteCount) (drop (nat actualStart) xs),
          take (nat actualStart) xs @ its @ drop (nat (actualStart + actualDeleteCount)) xs))"

text \<open>
  In this section the \<^verbatim>\<open>start\<close> argument of \<^verbatim>\<open>splice\<close> is an integer or \<^verbatim>\<open>-Infinity\<close>,
  which the method tests for; \<^verbatim>\<open>deleteCount\<close> is optional. Any other number is
  covered by \<open>splice_js\<close> below.
\<close>

datatype js_index = NegInfinity | Idx int

definition normalize_start :: "js_index \<Rightarrow> int \<Rightarrow> int" where
  "normalize_start start len =
     (case start of
        NegInfinity \<Rightarrow> 0
      | Idx s \<Rightarrow> if s < 0 then max (len + s) 0 else s)"

definition normalize_deleteCount :: "int option \<Rightarrow> int \<Rightarrow> int \<Rightarrow> int" where
  "normalize_deleteCount deleteCount len start =
     (case deleteCount of
        None \<Rightarrow> len - start
      | Some dc \<Rightarrow> min (max dc 0) (len - start))"

definition splice :: "js_index \<Rightarrow> int option \<Rightarrow> 'a list \<Rightarrow> 'a DataPointsBuffer \<Rightarrow>
    (js_error \<times> 'a DataPointsBuffer) + ('a list \<times> 'a DataPointsBuffer)" where
  "splice start0 deleteCount0 its b =
     (let start = normalize_start start0 (blength b);
          deleteCount = normalize_deleteCount deleteCount0 (blength b) start
      in case updateDelete start deleteCount (blength b) b of
           Inl e \<Rightarrow> Inl e
         | Inr b1 \<Rightarrow>
            (case updateInsert start (int (length its)) (blength b1 - deleteCount) b1 of
               Inl e \<Rightarrow> Inl e
             | Inr b2 \<Rightarrow>
                let expectedLen = blength b2 - deleteCount + int (length its);
                    (r, xs) = array_splice start deleteCount its (items b2);
                    b3 = b2\<lparr>items := xs\<rparr>
                in if blength b3 \<noteq> expectedLen then Inl (Error_BUG_length, b3)
                   else Inr (r, b3)))"

text \<open>The class invariant: no counter is negative, and the unsynced front and back
  regions fit into the array without overlapping.\<close>

definition counters_ok :: "'a DataPointsBuffer \<Rightarrow> bool" where
  "counters_ok b \<longleftrightarrow>
     0 \<le> pushed_front b \<and> 0 \<le> pushed_back b \<and> 0 \<le> poped_front b \<and> 0 \<le> poped_back b \<and>
     pushed_front b + pushed_back b \<le> blength b"

definition counters_zero :: "'a DataPointsBuffer \<Rightarrow> bool" where
  "counters_zero b \<longleftrightarrow>
     pushed_front b = 0 \<and> pushed_back b = 0 \<and> poped_front b = 0 \<and> poped_back b = 0"


section \<open>JavaScript numbers\<close>

text \<open>
  The coordinates of a data point and the bounds of a range are JavaScript numbers.
  Finite numbers are modelled as reals: comparison is exact, and the one subtraction
  of \<^verbatim>\<open>updateModel\<close> (real-time mode) is the real subtraction, without the rounding of
  binary floating point. \<^verbatim>\<open>NaN\<close> and the two infinities are values of their own, with
  the comparisons of the language: every comparison with \<^verbatim>\<open>NaN\<close> is false.
\<close>

datatype jsnum = NaN | NegInf | Fin real | PosInf

fun js_lt :: "jsnum \<Rightarrow> jsnum \<Rightarrow> bool" where
  "js_lt NaN _ = False"
| "js_lt _ NaN = False"
| "js_lt NegInf NegInf = False"
| "js_lt NegInf _ = True"
| "js_lt (Fin a) NegInf = False"
| "js_lt (Fin a) (Fin b) = (a < b)"
| "js_lt (Fin a) PosInf = True"
| "js_lt PosInf _ = False"

definition js_gt :: "jsnum \<Rightarrow> jsnum \<Rightarrow> bool" where
  "js_gt a b = js_lt b a"

text \<open>\<^verbatim>\<open>a <= b\<close>: false when either side is \<^verbatim>\<open>NaN\<close>.\<close>

definition js_le :: "jsnum \<Rightarrow> jsnum \<Rightarrow> bool" where
  "js_le a b = (a \<noteq> NaN \<and> b \<noteq> NaN \<and> \<not> js_lt b a)"

fun js_sub :: "jsnum \<Rightarrow> jsnum \<Rightarrow> jsnum" where
  "js_sub NaN _ = NaN"
| "js_sub _ NaN = NaN"
| "js_sub (Fin a) (Fin b) = Fin (a - b)"
| "js_sub (Fin a) PosInf = NegInf"
| "js_sub (Fin a) NegInf = PosInf"
| "js_sub PosInf PosInf = NaN"
| "js_sub PosInf _ = PosInf"
| "js_sub NegInf NegInf = NaN"
| "js_sub NegInf _ = NegInf"

text \<open>\<^verbatim>\<open>Math.min(...)\<close> and \<^verbatim>\<open>Math.max(...)\<close>: \<^verbatim>\<open>NaN\<close> if any argument is \<^verbatim>\<open>NaN\<close>,
  \<^verbatim>\<open>Infinity\<close> and \<^verbatim>\<open>-Infinity\<close> without arguments.\<close>

definition js_min2 :: "jsnum \<Rightarrow> jsnum \<Rightarrow> jsnum" where
  "js_min2 a b = (if a = NaN \<or> b = NaN then NaN else if js_lt b a then b else a)"

definition js_max2 :: "jsnum \<Rightarrow> jsnum \<Rightarrow> jsnum" where
  "js_max2 a b = (if a = NaN \<or> b = NaN then NaN else if js_lt a b then b else a)"

definition Math_min :: "jsnum list \<Rightarrow> jsnum" where
  "Math_min xs = foldr js_min2 xs PosInf"

definition Math_max :: "jsnum list \<Rightarrow> jsnum" where
  "Math_max xs = foldr js_max2 xs NegInf"

section \<open>Binary floating point\<close>






text \<open>\<^verbatim>\<open>a === b\<close> on numbers: false when either side is \<^verbatim>\<open>NaN\<close>.\<close>

definition js_eq :: "jsnum \<Rightarrow> jsnum \<Rightarrow> bool" where
  "js_eq a b = (a \<noteq> NaN \<and> b \<noteq> NaN \<and> a = b)"

section \<open>core/dataPointsBuffer.ts over all JavaScript values\<close>

text \<open>
  The class \<^verbatim>\<open>DataPointsBuffer\<close> once more, with nothing left out of its inputs. A slot
  of the array holds an element (\<open>Some v\<close>) or reads as \<^verbatim>\<open>undefined\<close> (\<open>None\<close>: a hole
  left by \<^verbatim>\<open>constructor(arrayLength)\<close>, or the element \<^verbatim>\<open>undefined\<close>; the class cannot
  tell the two apart). The four counters and every numeric argument are arbitrary
  JavaScript numbers, with the arithmetic and the comparisons of the language; nothing
  in the class truncates a number to an integer. Each method is the method of section
  \<open>core/dataPointsBuffer.ts\<close>, statement by statement.
\<close>

record 'a DataPointsBuffer_js =
  items_js :: "'a option list"
  pushed_back_js :: jsnum
  pushed_front_js :: jsnum
  poped_back_js :: jsnum
  poped_front_js :: jsnum



text \<open>\<^verbatim>\<open>constructor(...items: T[])\<close>, for items that are not a single number.\<close>

definition new_DataPointsBuffer_items_js :: "'a option list \<Rightarrow> 'a DataPointsBuffer_js" where
  "new_DataPointsBuffer_items_js xs =
     \<lparr>items_js = xs, pushed_back_js = Fin (real (length xs)), pushed_front_js = Fin 0,
      poped_back_js = Fin 0, poped_front_js = Fin 0\<rparr>"













text \<open>
  \<^verbatim>\<open>Array.prototype.splice\<close> (the \<^verbatim>\<open>super.splice\<close> call) on numbers. Unlike the class,
  the built-in method converts its two numbers to integers first (\<^verbatim>\<open>NaN\<close> to 0, any
  other finite number towards zero), then clamps the start into \<open>[0, length]\<close>, relative
  to the end when negative, and the delete count into \<open>[0, length - start]\<close>.
\<close>

definition js_trunc :: "real \<Rightarrow> int" where
  "js_trunc r = (if r < 0 then \<lceil>r\<rceil> else \<lfloor>r\<rfloor>)"

definition actualStart :: "jsnum \<Rightarrow> int \<Rightarrow> int" where
  "actualStart start len =
     (case start of
        NaN \<Rightarrow> 0
      | NegInf \<Rightarrow> 0
      | PosInf \<Rightarrow> len
      | Fin r \<Rightarrow> if js_trunc r < 0 then max (len + js_trunc r) 0 else min (js_trunc r) len)"

definition actualDeleteCount :: "jsnum \<Rightarrow> int \<Rightarrow> int" where
  "actualDeleteCount deleteCount room =
     (case deleteCount of
        NaN \<Rightarrow> 0
      | NegInf \<Rightarrow> 0
      | PosInf \<Rightarrow> room
      | Fin r \<Rightarrow> min (max (js_trunc r) 0) room)"






section \<open>core/renderModel.ts\<close>

datatype DataPoint = DataPoint (dp_x: jsnum) (dp_y: jsnum)

record MinMax =
  mm_min :: jsnum
  mm_max :: jsnum

text \<open>\<^verbatim>\<open>arr[i]\<close>: \<^verbatim>\<open>undefined\<close> outside the array.\<close>

definition array_get :: "'a list \<Rightarrow> int \<Rightarrow> 'a option" where
  "array_get arr i = (if 0 \<le> i \<and> i < int (length arr) then Some (arr ! nat i) else None)"

text \<open>
  \<^verbatim>\<open>calcMinMaxY\<close>: the loop over \<open>i\<close> from \<open>start\<close> below \<open>end\<close>. Reading \<^verbatim>\<open>.y\<close> of an
  element outside the array throws a TypeError.
\<close>

function calcMinMaxY_loop :: "DataPoint list \<Rightarrow> int \<Rightarrow> int \<Rightarrow> jsnum \<Rightarrow> jsnum \<Rightarrow> js_error + MinMax" where
  "calcMinMaxY_loop arr i end mx mn =
     (if i < end then
        (case array_get arr i of
           None \<Rightarrow> Inl TypeError_undefined
         | Some dp \<Rightarrow>
             let v = dp_y dp;
                 mx1 = (if js_gt v mx then v else mx);
                 mn1 = (if js_lt v mn then v else mn)
             in calcMinMaxY_loop arr (i + 1) end mx1 mn1)
      else Inr \<lparr>mm_min = mn, mm_max = mx\<rparr>)"
  by pat_completeness auto
termination
  by (relation "measure (\<lambda>(arr, i, e, mx, mn). nat (e - i))") auto

definition calcMinMaxY :: "DataPoint list \<Rightarrow> int \<Rightarrow> int \<Rightarrow> js_error + MinMax" where
  "calcMinMaxY arr start end = calcMinMaxY_loop arr start end NegInf PosInf"

definition unionMinMax :: "MinMax list \<Rightarrow> MinMax" where
  "unionMinMax its = \<lparr>mm_min = Math_min (map mm_min its), mm_max = Math_max (map mm_max its)\<rparr>"

text \<open>
  The options read by the model: \<^verbatim>\<open>realTime\<close>, and \<^verbatim>\<open>xRange\<close> / \<^verbatim>\<open>yRange\<close>, each
  \<^verbatim>\<open>'auto'\<close>, a fixed range, or absent. The series' data buffers are passed with each
  call, since they change between calls.
\<close>

datatype range_option = Auto | Fixed MinMax | Unset

record options =
  opt_realTime :: bool
  opt_xRange :: range_option
  opt_yRange :: range_option

text \<open>The state of a \<^verbatim>\<open>RenderModel\<close>: the domains of the two d3 scales and the two
  recorded ranges (\<open>None\<close> is \<^verbatim>\<open>null\<close>).\<close>

record RenderModel =
  xScale_domain :: "jsnum \<times> jsnum"
  yScale_domain :: "jsnum \<times> jsnum"
  xRange :: "MinMax option"
  yRange :: "MinMax option"

text \<open>The constructor; \<^verbatim>\<open>scaleLinear()\<close> starts with the domain \<open>[0, 1]\<close>.\<close>

definition new_RenderModel :: "options \<Rightarrow> RenderModel" where
  "new_RenderModel opts =
     \<lparr>xScale_domain = (case opt_xRange opts of
                         Fixed r \<Rightarrow> (mm_min r, mm_max r) | _ \<Rightarrow> (Fin 0, Fin 1)),
      yScale_domain = (case opt_yRange opts of
                         Fixed r \<Rightarrow> (mm_min r, mm_max r) | _ \<Rightarrow> (Fin 0, Fin 1)),
      xRange = None, yRange = None\<rparr>"

text \<open>The \<^verbatim>\<open>flatMap\<close> over the series: two calls of \<^verbatim>\<open>calcMinMaxY\<close> for each, the first
  throw ends it.\<close>

fun series_minMaxY :: "DataPoint DataPointsBuffer list \<Rightarrow> js_error + MinMax list" where
  "series_minMaxY [] = Inr []"
| "series_minMaxY (s # ss) =
     (case calcMinMaxY (items s) 0 (pushed_front s) of
        Inl e \<Rightarrow> Inl e
      | Inr front \<Rightarrow>
         (case calcMinMaxY (items s) (blength s - pushed_back s) (blength s) of
            Inl e \<Rightarrow> Inl e
          | Inr back \<Rightarrow>
             (case series_minMaxY ss of
                Inl e \<Rightarrow> Inl e
              | Inr rest \<Rightarrow> Inr (front # back # rest))))"

text \<open>
  \<^verbatim>\<open>updateModel\<close>. The function \<open>nice\<close> stands for d3's \<^verbatim>\<open>.nice()\<close>, which is not part
  of this repository.
\<close>

definition updateModel :: "options \<Rightarrow> (jsnum \<times> jsnum \<Rightarrow> jsnum \<times> jsnum) \<Rightarrow>
    DataPoint DataPointsBuffer list \<Rightarrow> RenderModel \<Rightarrow> (js_error \<times> RenderModel) + RenderModel" where
  "updateModel opts nice all_series m =
     (let series = filter (\<lambda>s. blength s > 0) all_series in
      if length series = 0 then Inr m
      else
        let maxDomain = Math_max (map (\<lambda>s. dp_x (items s ! nat (blength s - 1))) series);
            minDomain = Math_min (map (\<lambda>s. dp_x (items s ! 0)) series);
            m1 = m\<lparr>xRange := Some \<lparr>mm_min = minDomain, mm_max = maxDomain\<rparr>\<rparr>;
            m2 = (if opt_realTime opts \<or> opt_xRange opts = Auto then
                    (if opt_realTime opts then
                       let currentDomain = xScale_domain m1;
                           rng = js_sub (snd currentDomain) (fst currentDomain)
                       in m1\<lparr>xScale_domain := (js_sub maxDomain rng, maxDomain)\<rparr>
                     else m1\<lparr>xScale_domain := (minDomain, maxDomain)\<rparr>)
                  else (case opt_xRange opts of
                          Fixed r \<Rightarrow> m1\<lparr>xScale_domain := (mm_min r, mm_max r)\<rparr>
                        | _ \<Rightarrow> m1))
        in case series_minMaxY series of
             Inl e \<Rightarrow> Inl (e, m2)
           | Inr minMaxY0 \<Rightarrow>
               let minMaxY = (case yRange m2 of
                                Some r \<Rightarrow> minMaxY0 @ [r]
                              | None \<Rightarrow> minMaxY0);
                   yr = unionMinMax minMaxY;
                   m3 = m2\<lparr>yRange := Some yr\<rparr>
               in Inr (case opt_yRange opts of
                         Auto \<Rightarrow> m3\<lparr>yScale_domain := nice (mm_min yr, mm_max yr)\<rparr>
                       | Fixed r \<Rightarrow> m3\<lparr>yScale_domain := (mm_min r, mm_max r)\<rparr>
                       | Unset \<Rightarrow> m3))"

text \<open>
  A sequence of \<^verbatim>\<open>updateModel\<close> calls, one for each snapshot of the series. A call
  that throws leaves the model as it was at the throw, and later calls go on from there.
\<close>

definition update_step :: "options \<Rightarrow> (jsnum \<times> jsnum \<Rightarrow> jsnum \<times> jsnum) \<Rightarrow>
    RenderModel \<Rightarrow> DataPoint DataPointsBuffer list \<Rightarrow> RenderModel" where
  "update_step opts nice m all_series =
     (case updateModel opts nice all_series m of Inl (e, m') \<Rightarrow> m' | Inr m' \<Rightarrow> m')"

definition update_calls :: "options \<Rightarrow> (jsnum \<times> jsnum \<Rightarrow> jsnum \<times> jsnum) \<Rightarrow>
    RenderModel \<Rightarrow> DataPoint DataPointsBuffer list list \<Rightarrow> RenderModel" where
  "update_calls opts nice m snapshots = foldl (update_step opts nice) m snapshots"


section \<open>The line chart renderer: GPU segments\<close>

definition BUFFER_TEXTURE_WIDTH :: int where
  "BUFFER_TEXTURE_WIDTH = 256"

definition BUFFER_TEXTURE_HEIGHT :: int where
  "BUFFER_TEXTURE_HEIGHT = 2048"

definition BUFFER_POINT_CAPACITY :: int where
  "BUFFER_POINT_CAPACITY = BUFFER_TEXTURE_WIDTH * BUFFER_TEXTURE_HEIGHT"

definition BUFFER_INTERVAL_CAPACITY :: int where
  "BUFFER_INTERVAL_CAPACITY = BUFFER_POINT_CAPACITY - 2"

subsection \<open>SeriesSegmentVertexArray\<close>

text \<open>
  The texture of a segment: the data point held by each cell, addressed by the flat
  index \<open>p = row * BUFFER_TEXTURE_WIDTH + column\<close>. A cell holds the pair of numbers
  written to it; the narrowing to 32-bit floats is not modelled. A new texture is
  filled with zeros.
\<close>

type_synonym texture = "int \<Rightarrow> DataPoint"

definition new_texture :: texture where
  "new_texture = (\<lambda>p. DataPoint (Fin 0) (Fin 0))"

text \<open>The rows \<open>[rowStart, rowEnd)\<close> that \<^verbatim>\<open>syncPoints\<close> uploads; \<open>len\<close> is
  \<^verbatim>\<open>dataPoints.length\<close>.\<close>

definition sync_rows :: "int \<Rightarrow> int \<Rightarrow> int \<Rightarrow> int \<Rightarrow> int \<times> int" where
  "sync_rows start n bufferPos len =
     (let rowStart0 = bufferPos div BUFFER_TEXTURE_WIDTH;
          rowEnd0 = - ((- (bufferPos + n)) div BUFFER_TEXTURE_WIDTH);
          rowStart = (if rowStart0 > 0 \<and> start = 0 \<and>
                         bufferPos = rowStart0 * BUFFER_TEXTURE_WIDTH
                      then rowStart0 - 1 else rowStart0);
          rowEnd = (if rowEnd0 < BUFFER_TEXTURE_HEIGHT \<and> start + n = len \<and>
                       bufferPos + n = rowEnd0 * BUFFER_TEXTURE_WIDTH
                    then rowEnd0 + 1 else rowEnd0)
      in (rowStart, rowEnd))"

text \<open>The source index read for the cell \<open>p\<close>.\<close>

definition source_index :: "int \<Rightarrow> int \<Rightarrow> int \<Rightarrow> int \<Rightarrow> int" where
  "source_index start bufferPos len p = max (min (start + p - bufferPos) (len - 1)) 0"

text \<open>
  The fill loops. The temporary buffer maps the cell offset
  \<open>(r - rowStart) * BUFFER_TEXTURE_WIDTH + c\<close> to the point written there. Reading a
  coordinate of \<^verbatim>\<open>dataPoints[i]\<close> throws a TypeError when \<open>i\<close> is outside the array.
\<close>

function fill_cols :: "DataPoint list \<Rightarrow> int \<Rightarrow> int \<Rightarrow> int \<Rightarrow> int \<Rightarrow> int \<Rightarrow>
    (int \<Rightarrow> DataPoint) \<Rightarrow> js_error + (int \<Rightarrow> DataPoint)" where
  "fill_cols dataPoints start bufferPos rowStart r c buffer =
     (if c < BUFFER_TEXTURE_WIDTH then
        let p = r * BUFFER_TEXTURE_WIDTH + c;
            i = source_index start bufferPos (int (length dataPoints)) p
        in (case array_get dataPoints i of
              None \<Rightarrow> Inl TypeError_undefined
            | Some dp \<Rightarrow>
                let bufferIdx = (r - rowStart) * BUFFER_TEXTURE_WIDTH + c
                in fill_cols dataPoints start bufferPos rowStart r (c + 1)
                     (buffer(bufferIdx := dp)))
      else Inr buffer)"
  by pat_completeness auto
termination
  by (relation "measure (\<lambda>(d, s, bp, rs, r, c, b). nat (BUFFER_TEXTURE_WIDTH - c))") auto

function fill_rows :: "DataPoint list \<Rightarrow> int \<Rightarrow> int \<Rightarrow> int \<Rightarrow> int \<Rightarrow> int \<Rightarrow>
    (int \<Rightarrow> DataPoint) \<Rightarrow> js_error + (int \<Rightarrow> DataPoint)" where
  "fill_rows dataPoints start bufferPos rowStart r rowEnd buffer =
     (if r < rowEnd then
        (case fill_cols dataPoints start bufferPos rowStart r 0 buffer of
           Inl e \<Rightarrow> Inl e
         | Inr buffer1 \<Rightarrow> fill_rows dataPoints start bufferPos rowStart (r + 1) rowEnd buffer1)
      else Inr buffer)"
  by pat_completeness auto
termination
  by (relation "measure (\<lambda>(d, s, bp, rs, r, re, b). nat (re - r))") auto

text \<open>
  \<^verbatim>\<open>gl.texSubImage2D\<close> of \<open>height\<close> full rows from row \<open>yoffset\<close> on. A region outside
  the texture is a GL error (INVALID_VALUE) that leaves the texture as it was.
\<close>

definition texSubImage2D :: "int \<Rightarrow> int \<Rightarrow> (int \<Rightarrow> DataPoint) \<Rightarrow> texture \<Rightarrow> texture" where
  "texSubImage2D yoffset height buffer tex =
     (if yoffset < 0 \<or> height < 0 \<or> yoffset + height > BUFFER_TEXTURE_HEIGHT then tex
      else (\<lambda>p. if yoffset * BUFFER_TEXTURE_WIDTH \<le> p \<and>
                   p < (yoffset + height) * BUFFER_TEXTURE_WIDTH
                then buffer (p - yoffset * BUFFER_TEXTURE_WIDTH) else tex p))"

definition syncPoints :: "int \<Rightarrow> int \<Rightarrow> int \<Rightarrow> DataPoint list \<Rightarrow> texture \<Rightarrow> js_error + texture" where
  "syncPoints start n bufferPos dataPoints tex =
     (case sync_rows start n bufferPos (int (length dataPoints)) of (rowStart, rowEnd) \<Rightarrow>
        if rowEnd - rowStart < 0 then Inl RangeError_array_length
        else
          (case fill_rows dataPoints start bufferPos rowStart rowStart rowEnd new_texture of
             Inl e \<Rightarrow> Inl e
           | Inr buffer \<Rightarrow> Inr (texSubImage2D rowStart (rowEnd - rowStart) buffer tex)))"

subsection \<open>SeriesVertexArray\<close>

text \<open>
  The segment chain of one series, with the series' data buffer (which
  \<^verbatim>\<open>syncBuffer\<close> writes to) and the number of textures deleted so far.
\<close>

record SeriesVertexArray =
  segments :: "texture list"
  validStart :: int
  validEnd :: int
  series_data :: "DataPoint DataPointsBuffer"
  deleted :: nat

definition new_SeriesVertexArray :: "DataPoint DataPointsBuffer \<Rightarrow> SeriesVertexArray" where
  "new_SeriesVertexArray d =
     \<lparr>segments = [], validStart = 0, validEnd = 0, series_data = d, deleted = 0\<rparr>"

text \<open>\<^verbatim>\<open>this.segments[i].syncPoints(start, n, bufferPos)\<close>; a TypeError when there is no
  segment \<open>i\<close>.\<close>

definition syncPoints_at :: "nat \<Rightarrow> int \<Rightarrow> int \<Rightarrow> int \<Rightarrow> SeriesVertexArray \<Rightarrow>
    (js_error \<times> SeriesVertexArray) + SeriesVertexArray" where
  "syncPoints_at i start n bufferPos s =
     (if i < length (segments s) then
        (case syncPoints start n bufferPos (items (series_data s)) (segments s ! i) of
           Inl e \<Rightarrow> Inl (e, s)
         | Inr t \<Rightarrow> Inr (s\<lparr>segments := (segments s)[i := t]\<rparr>))
      else Inl (TypeError_undefined, s))"

function popFront_loop :: "SeriesVertexArray \<Rightarrow> (js_error \<times> SeriesVertexArray) + SeriesVertexArray" where
  "popFront_loop s =
     (if validStart s > BUFFER_INTERVAL_CAPACITY then
        (if segments s = [] then Inl (TypeError_undefined, s)
         else popFront_loop
                (s\<lparr>deleted := Suc (deleted s), segments := tl (segments s),
                   validStart := validStart s - BUFFER_INTERVAL_CAPACITY\<rparr>))
      else Inr s)"
  by pat_completeness auto
termination
  by (relation "measure (\<lambda>s. nat (validStart s))")
     (auto simp: BUFFER_INTERVAL_CAPACITY_def BUFFER_POINT_CAPACITY_def
                 BUFFER_TEXTURE_WIDTH_def BUFFER_TEXTURE_HEIGHT_def)

definition popFront :: "SeriesVertexArray \<Rightarrow> (js_error \<times> SeriesVertexArray) + SeriesVertexArray" where
  "popFront s =
     (if poped_front (series_data s) = 0 then Inr s
      else
        (case popFront_loop (s\<lparr>validStart := validStart s + poped_front (series_data s)\<rparr>) of
           Inl e \<Rightarrow> Inl e
         | Inr s1 \<Rightarrow> syncPoints_at 0 0 0 (validStart s1) s1))"

function popBack_loop :: "SeriesVertexArray \<Rightarrow> (js_error \<times> SeriesVertexArray) + SeriesVertexArray" where
  "popBack_loop s =
     (if validEnd s < BUFFER_POINT_CAPACITY - BUFFER_INTERVAL_CAPACITY then
        (if segments s = [] then Inl (TypeError_undefined, s)
         else popBack_loop
                (s\<lparr>deleted := Suc (deleted s), segments := butlast (segments s),
                   validEnd := validEnd s + BUFFER_INTERVAL_CAPACITY\<rparr>))
      else Inr s)"
  by pat_completeness auto
termination
  by (relation "measure (\<lambda>s. nat (BUFFER_POINT_CAPACITY - BUFFER_INTERVAL_CAPACITY - validEnd s))")
     (auto simp: BUFFER_INTERVAL_CAPACITY_def BUFFER_POINT_CAPACITY_def
                 BUFFER_TEXTURE_WIDTH_def BUFFER_TEXTURE_HEIGHT_def)

definition popBack :: "SeriesVertexArray \<Rightarrow> (js_error \<times> SeriesVertexArray) + SeriesVertexArray" where
  "popBack s =
     (if poped_back (series_data s) = 0 then Inr s
      else
        (case popBack_loop (s\<lparr>validEnd := validEnd s - poped_back (series_data s)\<rparr>) of
           Inl e \<Rightarrow> Inl e
         | Inr s1 \<Rightarrow>
             syncPoints_at (length (segments s1) - 1) (blength (series_data s1)) 0
               (validEnd s1) s1))"

text \<open>The two local \<^verbatim>\<open>newArray\<close> closures.\<close>

definition newArray_front :: "SeriesVertexArray \<Rightarrow> SeriesVertexArray" where
  "newArray_front s = s\<lparr>segments := new_texture # segments s, validStart := BUFFER_POINT_CAPACITY\<rparr>"

definition newArray_back :: "SeriesVertexArray \<Rightarrow> SeriesVertexArray" where
  "newArray_back s = s\<lparr>segments := segments s @ [new_texture], validEnd := 0\<rparr>"


function pushFront_loop :: "int \<Rightarrow> SeriesVertexArray \<Rightarrow>
    (js_error \<times> SeriesVertexArray) + SeriesVertexArray" where
  "pushFront_loop numDPtoAdd s =
     (let n = min (validStart s) numDPtoAdd in
      case syncPoints_at 0 (numDPtoAdd - n) n (validStart s - n) s of
        Inl e \<Rightarrow> Inl e
      | Inr s1 \<Rightarrow>
          let numDPtoAdd1 = numDPtoAdd -
                (validStart s1 - (BUFFER_POINT_CAPACITY - BUFFER_INTERVAL_CAPACITY));
              s2 = s1\<lparr>validStart := validStart s1 - n\<rparr>
          in if validStart s2 > 0 then Inr s2
             else pushFront_loop numDPtoAdd1 (newArray_front s2))"
  by pat_completeness auto
termination
  by (relation "measures [\<lambda>(k, s). if validStart s = BUFFER_POINT_CAPACITY then 0 else 1,
                          \<lambda>(k, s). nat k]")
     (auto simp: syncPoints_at_def newArray_front_def BUFFER_INTERVAL_CAPACITY_def
                 BUFFER_POINT_CAPACITY_def BUFFER_TEXTURE_WIDTH_def BUFFER_TEXTURE_HEIGHT_def
           split: if_splits sum.splits)

definition pushFront :: "SeriesVertexArray \<Rightarrow> (js_error \<times> SeriesVertexArray) + SeriesVertexArray" where
  "pushFront s =
     (let numDPtoAdd = pushed_front (series_data s) in
      if numDPtoAdd = 0 then Inr s
      else
        let s1 = (if length (segments s) = 0
                  then (newArray_front s)\<lparr>validStart := BUFFER_POINT_CAPACITY - 1,
                                           validEnd := BUFFER_POINT_CAPACITY - 1\<rparr>
                  else s)
        in pushFront_loop numDPtoAdd s1)"

function pushBack_loop :: "int \<Rightarrow> SeriesVertexArray \<Rightarrow>
    (js_error \<times> SeriesVertexArray) + SeriesVertexArray" where
  "pushBack_loop numDPtoAdd s =
     (let n = min (BUFFER_POINT_CAPACITY - validEnd s) numDPtoAdd in
      case syncPoints_at (length (segments s) - 1)
             (blength (series_data s) - numDPtoAdd) n (validEnd s) s of
        Inl e \<Rightarrow> Inl e
      | Inr s1 \<Rightarrow>
          let numDPtoAdd1 = numDPtoAdd - (BUFFER_INTERVAL_CAPACITY - validEnd s1);
              s2 = s1\<lparr>validEnd := validEnd s1 + n\<rparr>
          in if validEnd s2 < BUFFER_POINT_CAPACITY then Inr s2
             else pushBack_loop numDPtoAdd1 (newArray_back s2))"
  by pat_completeness auto
termination
  by (relation "measures [\<lambda>(k, s). if validEnd s = 0 then 0 else 1, \<lambda>(k, s). nat k]")
     (auto simp: syncPoints_at_def newArray_back_def BUFFER_INTERVAL_CAPACITY_def
                 BUFFER_POINT_CAPACITY_def BUFFER_TEXTURE_WIDTH_def BUFFER_TEXTURE_HEIGHT_def
           split: if_splits sum.splits)

definition pushBack :: "SeriesVertexArray \<Rightarrow> (js_error \<times> SeriesVertexArray) + SeriesVertexArray" where
  "pushBack s =
     (let numDPtoAdd = pushed_back (series_data s) in
      if numDPtoAdd = 0 then Inr s
      else
        let s1 = (if length (segments s) = 0
                  then (newArray_back s)\<lparr>validStart := 1, validEnd := 1\<rparr>
                  else s)
        in pushBack_loop numDPtoAdd s1)"

definition deinit :: "SeriesVertexArray \<Rightarrow> SeriesVertexArray" where
  "deinit s = s\<lparr>deleted := deleted s + length (segments s), segments := []\<rparr>"

definition syncBuffer :: "SeriesVertexArray \<Rightarrow> (js_error \<times> SeriesVertexArray) + SeriesVertexArray" where
  "syncBuffer s =
     (let d = series_data s;
          s1 = (if blength d - pushed_back d - pushed_front d < 2
                then (deinit s)\<lparr>series_data := d\<lparr>poped_back := 0, poped_front := 0\<rparr>\<rparr>
                else s);
          d1 = series_data s1
      in if length (segments s1) = 0 then
           (if blength d1 \<ge> 2 then
              (if pushed_back d1 > pushed_front d1
               then pushBack (s1\<lparr>series_data := d1\<lparr>pushed_back := blength d1\<rparr>\<rparr>)
               else pushFront (s1\<lparr>series_data := d1\<lparr>pushed_front := blength d1\<rparr>\<rparr>))
            else Inr s1)
         else
           (case popFront s1 of
              Inl e \<Rightarrow> Inl e
            | Inr s2 \<Rightarrow>
               (case popBack s2 of
                  Inl e \<Rightarrow> Inl e
                | Inr s3 \<Rightarrow>
                   (case pushFront s3 of
                      Inl e \<Rightarrow> Inl e
                    | Inr s4 \<Rightarrow> pushBack s4))))"


section \<open>Predicates used in the proofs\<close>


text \<open>The invariant of the counters relative to the local \<^verbatim>\<open>len\<close> of \<^verbatim>\<open>updateDelete\<close>.\<close>

definition okc :: "'a DataPointsBuffer \<Rightarrow> int \<Rightarrow> bool" where
  "okc b len \<longleftrightarrow>
     0 \<le> pushed_front b \<and> 0 \<le> pushed_back b \<and> 0 \<le> poped_front b \<and> 0 \<le> poped_back b \<and>
     pushed_front b + pushed_back b \<le> len"

text \<open>The point that \<^verbatim>\<open>syncPoints\<close> writes into the cell \<open>p\<close>.\<close>

definition cell_value :: "DataPoint list \<Rightarrow> int \<Rightarrow> int \<Rightarrow> int \<Rightarrow> DataPoint" where
  "cell_value dataPoints start bufferPos p =
     dataPoints ! nat (source_index start bufferPos (int (length dataPoints)) p)"

text \<open>The domain of the x-scale after one \<^verbatim>\<open>updateModel\<close> call, whether or not the
  call throws in its second half.\<close>

definition x_after :: "options \<Rightarrow> DataPoint DataPointsBuffer list \<Rightarrow> RenderModel \<Rightarrow> jsnum \<times> jsnum" where
  "x_after opts all_series m =
     (let series = filter (\<lambda>s. blength s > 0) all_series;
          maxDomain = Math_max (map (\<lambda>s. dp_x (items s ! nat (blength s - 1))) series);
          minDomain = Math_min (map (\<lambda>s. dp_x (items s ! 0)) series)
      in if series = [] then xScale_domain m
         else if opt_realTime opts then
           (js_sub maxDomain (js_sub (snd (xScale_domain m)) (fst (xScale_domain m))), maxDomain)
         else (case opt_xRange opts of
                 Auto \<Rightarrow> (minDomain, maxDomain)
               | Fixed r \<Rightarrow> (mm_min r, mm_max r)
               | Unset \<Rightarrow> xScale_domain m))"

text \<open>No bound of the recorded y-range is \<^verbatim>\<open>NaN\<close>.\<close>

definition yRange_ok :: "RenderModel \<Rightarrow> bool" where
  "yRange_ok m = (case yRange m of None \<Rightarrow> True
                  | Some r \<Rightarrow> mm_min r \<noteq> NaN \<and> mm_max r \<noteq> NaN)"

text \<open>The state a call of \<^verbatim>\<open>syncBuffer\<close> (or of one of its steps) leaves behind,
  whether it returns or throws.\<close>

definition result_state :: "(js_error \<times> SeriesVertexArray) + SeriesVertexArray \<Rightarrow> SeriesVertexArray" where
  "result_state R = (case R of Inl (e, s) \<Rightarrow> s | Inr s \<Rightarrow> s)"

text \<open>
  The textures of the segment-creation scenario: the first segment after \<open>CAP - 2\<close>
  points were pushed and synced, the same segment after one more point, and the second
  segment created for that point.
\<close>

definition first_texture :: "DataPoint list \<Rightarrow> texture" where
  "first_texture xs =
     (\<lambda>p. if 0 * BUFFER_TEXTURE_WIDTH \<le> p \<and> p < 2048 * BUFFER_TEXTURE_WIDTH
          then cell_value xs 0 1 p else new_texture p)"

definition first_texture2 :: "DataPoint list \<Rightarrow> DataPoint \<Rightarrow> texture" where
  "first_texture2 xs x =
     (\<lambda>p. if 2047 * BUFFER_TEXTURE_WIDTH \<le> p \<and> p < 2048 * BUFFER_TEXTURE_WIDTH
          then cell_value (xs @ [x]) 524286 524287 p else first_texture xs p)"

definition second_texture :: "DataPoint list \<Rightarrow> DataPoint \<Rightarrow> texture" where
  "second_texture xs x =
     (\<lambda>p. if 0 * BUFFER_TEXTURE_WIDTH \<le> p \<and> p < 1 * BUFFER_TEXTURE_WIDTH
          then cell_value (xs @ [x]) 524285 0 p else new_texture p)"

text \<open>
  The bridge between the two models of the buffer: an integer as a number, a buffer
  with integer counters as a buffer with numbers for counters (and back), and the
  result of a method of the first model as a result of the second.
\<close>

definition num :: "int \<Rightarrow> jsnum" where
  "num k = Fin (real_of_int k)"


definition embed :: "'a option DataPointsBuffer \<Rightarrow> 'a DataPointsBuffer_js" where
  "embed b =
     \<lparr>items_js = items b, pushed_back_js = num (pushed_back b),
      pushed_front_js = num (pushed_front b), poped_back_js = num (poped_back b),
      poped_front_js = num (poped_front b)\<rparr>"








text \<open>The loops are unfolded by hand, one iteration at a time.\<close>

declare calcMinMaxY_loop.simps [simp del]
declare fill_cols.simps [simp del]
declare fill_rows.simps [simp del]
declare popFront_loop.simps [simp del]
declare popBack_loop.simps [simp del]
declare pushFront_loop.simps [simp del]
declare pushBack_loop.simps [simp del]



section \<open>The change-tracking sequence\<close>

subsection \<open>Failed mutations\<close>





lemma updateDelete_items: "updateDelete start dc len b = Inr b' \<Longrightarrow> items b' = items b"
  by (auto simp: updateDelete_def delete_case1_def delete_case2_def delete_case3_def delete_case4_def d_helper_def Let_def split: if_splits)






subsection \<open>The invariant of the counters\<close>

lemma case4_ok:
  assumes "okc b len" "0 \<le> dc" "start + dc \<le> len" "len - pushed_back b \<le> start"
    and "delete_case4 start (b, dc, len) = Inr b'"
  shows "okc b' (len - dc)"
  using assms by (auto simp: okc_def delete_case4_def d_helper_def Let_def split: if_splits)

lemma case3_ok:
  assumes "okc b len" "0 \<le> dc" "start + dc \<le> len" "pushed_front b \<le> start"
     "start = pushed_front b \<longrightarrow> len = pushed_front b + pushed_back b"
    and "delete_case3 start (b, dc, len) = Inr b'"
  shows "okc b' (len - dc)"
proof (cases "start > pushed_front b \<and> start < len - pushed_back b")
  case False
  then have "delete_case4 start (b, dc, len) = Inr b'" using assms(6) by (auto simp: delete_case3_def)
  moreover have "len - pushed_back b \<le> start" using False assms(4,5) by auto
  ultimately show ?thesis using case4_ok assms(1-3) by blast
next
  case True
  show ?thesis using True assms
    by (auto simp: okc_def delete_case3_def delete_case4_def d_helper_def Let_def split: if_splits)
qed

lemma case2_ok:
  assumes "okc b len" "0 \<le> dc" "start + dc \<le> len" "pushed_front b \<le> start"
    and "delete_case2 start (b, dc, len) = Inr b'"
  shows "okc b' (len - dc)"
proof (cases "start = pushed_front b")
  case False
  then have "delete_case3 start (b, dc, len) = Inr b'" using assms(5) by (auto simp: delete_case2_def)
  then show ?thesis using case3_ok[OF assms(1-4)] False by blast
next
  case True
  show ?thesis using True assms
    by (auto simp: okc_def delete_case2_def delete_case3_def delete_case4_def d_helper_def Let_def split: if_splits)
qed

lemma case1_ok:
  assumes "okc b len" "0 \<le> dc" "start + dc \<le> len" "0 \<le> start"
    and "delete_case1 start (b, dc, len) = Inr b'"
  shows "okc b' (len - dc)"
proof (cases "start < pushed_front b")
  case False
  then have "delete_case2 start (b, dc, len) = Inr b'" using assms(5) by (auto simp: delete_case1_def)
  then show ?thesis using case2_ok[OF assms(1-3)] False by auto
next
  case True
  show ?thesis using True assms
    by (auto simp: okc_def delete_case1_def delete_case2_def delete_case3_def delete_case4_def d_helper_def Let_def split: if_splits)
qed

lemma updateDelete_ok:
  assumes "okc b len" "0 \<le> dc" "start + dc \<le> len" "0 \<le> start" "updateDelete start dc len b = Inr b'"
  shows "okc b' (len - dc)"
proof (cases "dc = 0")
  case True then show ?thesis using assms by (simp add: updateDelete_def)
next
  case False
  then show ?thesis using assms case1_ok[of b len dc start b'] by (simp add: updateDelete_def)
qed

lemma updateInsert_ok:
  assumes "okc b len" "0 \<le> k" "updateInsert start k len b = Inr b'"
  shows "okc b' (len + k)"
  using assms by (auto simp: okc_def updateInsert_def split: if_splits)

lemma updateInsert_items: "updateInsert start k len b = Inr b' \<Longrightarrow> items b' = items b"
  by (auto simp: updateInsert_def split: if_splits)

lemma normalize_start_nonneg: "0 \<le> normalize_start start len"
  by (simp add: normalize_start_def split: js_index.splits)

lemma normalize_deleteCount_bounds:
  "start \<le> len \<Longrightarrow> 0 \<le> normalize_deleteCount dc len start \<and> start + normalize_deleteCount dc len start \<le> len"
  by (auto simp add: normalize_deleteCount_def split: option.splits)

lemma normalize_deleteCount_beyond:
  "len < start \<Longrightarrow> normalize_deleteCount dc len start = len - start"
  by (auto simp add: normalize_deleteCount_def split: option.splits)

lemma array_splice_length_beyond:
  "int (length xs) < start \<Longrightarrow> dc < 0 \<Longrightarrow> length (snd (array_splice start dc its xs)) = length xs + length its"
  by (simp add: array_splice_def Let_def)

lemma splice_Inr:
  assumes "splice start dc its b = Inr (r, b')"
  obtains b1 b2 where
    "updateDelete (normalize_start start (blength b)) (normalize_deleteCount dc (blength b) (normalize_start start (blength b))) (blength b) b = Inr b1"
    "updateInsert (normalize_start start (blength b)) (int (length its)) (blength b - normalize_deleteCount dc (blength b) (normalize_start start (blength b))) b1 = Inr b2"
    "blength b' = blength b - normalize_deleteCount dc (blength b) (normalize_start start (blength b)) + int (length its)"
    "b' = b2\<lparr>items := snd (array_splice (normalize_start start (blength b)) (normalize_deleteCount dc (blength b) (normalize_start start (blength b))) its (items b))\<rparr>"
proof -
  define st where "st = normalize_start start (blength b)"
  define d where "d = normalize_deleteCount dc (blength b) st"
  from assms obtain b1 where b1: "updateDelete st d (blength b) b = Inr b1"
    by (auto simp: splice_def Let_def st_def d_def split: sum.splits)
  have i1: "items b1 = items b" using updateDelete_items[OF b1] .
  then have l1: "blength b1 = blength b" by (simp add: blength_def)
  from assms b1 l1 obtain b2 where b2: "updateInsert st (int (length its)) (blength b - d) b1 = Inr b2"
    by (auto simp: splice_def Let_def st_def d_def split: sum.splits)
  have i2: "items b2 = items b" using updateInsert_items[OF b2] i1 by simp
  then have l2: "blength b2 = blength b" by (simp add: blength_def)
  from assms b1 b2 l1 l2 i2 have "blength b' = blength b - d + int (length its) \<and> b' = b2\<lparr>items := snd (array_splice st d its (items b))\<rparr>"
    by (auto simp: splice_def Let_def st_def[symmetric] d_def[symmetric] split: prod.splits if_splits)
  then show ?thesis using that b1 b2 unfolding st_def d_def by blast
qed

lemma blength_items_upd: "blength (b\<lparr>items := xs\<rparr>) = int (length xs)"
  by (simp add: blength_def)

lemma splice_Inr_in_range:
  assumes "splice start dc its b = Inr (r, b')"
  shows "normalize_start start (blength b) \<le> blength b"
proof (rule ccontr)
  assume "\<not> ?thesis"
  then have gt: "blength b < normalize_start start (blength b)" by simp
  let ?st = "normalize_start start (blength b)"
  have d: "normalize_deleteCount dc (blength b) ?st = blength b - ?st"
    using normalize_deleteCount_beyond[OF gt] .
  from splice_Inr[OF assms] obtain b2 where
     l: "blength b' = blength b - normalize_deleteCount dc (blength b) ?st + int (length its)"
     and e: "b' = b2\<lparr>items := snd (array_splice ?st (normalize_deleteCount dc (blength b) ?st) its (items b))\<rparr>"
    by blast
  have "blength b' = blength b + int (length its)"
    using gt array_splice_length_beyond[of "items b" ?st "blength b - ?st" its]
    by (simp add: e d blength_items_upd) (simp add: blength_def)
  with l d gt show False by simp
qed

lemma splice_counters_ok:
  assumes ok: "counters_ok b" and s: "splice start dc its b = Inr (r, b')"
  shows "counters_ok b'"
proof -
  let ?st = "normalize_start start (blength b)"
  let ?d = "normalize_deleteCount dc (blength b) ?st"
  have r: "?st \<le> blength b" using splice_Inr_in_range[OF s] .
  from splice_Inr[OF s] obtain b1 b2 where
    b1: "updateDelete ?st ?d (blength b) b = Inr b1" and
    b2: "updateInsert ?st (int (length its)) (blength b - ?d) b1 = Inr b2" and
    l: "blength b' = blength b - ?d + int (length its)" and
    e: "b' = b2\<lparr>items := snd (array_splice ?st ?d its (items b))\<rparr>"
    by blast
  have "okc b (blength b)" using ok by (simp add: okc_def counters_ok_def)
  then have "okc b1 (blength b - ?d)"
    using updateDelete_ok[OF _ _ _ _ b1] normalize_deleteCount_bounds[OF r] normalize_start_nonneg by blast
  then have "okc b2 (blength b - ?d + int (length its))"
    using updateInsert_ok[OF _ _ b2] by simp
  then have "okc b' (blength b')" using l by (simp add: e okc_def)
  then show ?thesis by (simp add: okc_def counters_ok_def)
qed

lemma push_counters_ok: "counters_ok b \<Longrightarrow> counters_ok (push its b)"
  by (simp add: counters_ok_def push_def blength_def)

lemma unshift_counters_ok: "counters_ok b \<Longrightarrow> counters_ok (unshift its b)"
  by (simp add: counters_ok_def unshift_def blength_def)

lemma pop_counters_ok: "counters_ok b \<Longrightarrow> counters_ok (snd (pop b))"
  by (cases "items b") (auto simp add: counters_ok_def pop_def blength_def Let_def)

lemma shift_counters_ok: "counters_ok b \<Longrightarrow> counters_ok (snd (shift b))"
  by (cases "items b") (auto simp add: counters_ok_def shift_def blength_def Let_def)

text \<open>
  On integer counters and arguments and arrays without \<^verbatim>\<open>undefined\<close> elements, every
  operation that returns normally preserves the invariant of the counters.
\<close>

lemma counters_ok_preserved:
  assumes "counters_ok b"
  shows "counters_ok (push its b) \<and> counters_ok (snd (pop b)) \<and>
         counters_ok (unshift its b) \<and> counters_ok (snd (shift b)) \<and>
         (\<forall>start dc xs r b'. splice start dc xs b = Inr (r, b') \<longrightarrow> counters_ok b')"
proof (intro conjI allI impI)
  show "counters_ok (push its b)" using assms by (rule push_counters_ok)
  show "counters_ok (snd (pop b))" using assms by (rule pop_counters_ok)
  show "counters_ok (unshift its b)" using assms by (rule unshift_counters_ok)
  show "counters_ok (snd (shift b))" using assms by (rule shift_counters_ok)
next
  fix start dc xs r b'
  assume "splice start dc xs b = Inr (r, b')"
  then show "counters_ok b'" by (rule splice_counters_ok[OF assms])
qed


subsection \<open>Push and pop at one end\<close>

lemma pops_pushed:
  "int k \<le> pushed_back b \<Longrightarrow> k \<le> length (items b) \<Longrightarrow>
   pops k b = b\<lparr>items := take (length (items b) - k) (items b), pushed_back := pushed_back b - int k\<rparr>"
proof (induction k arbitrary: b)
  case 0 then show ?case by simp
next
  case (Suc k)
  have ne: "items b \<noteq> []" using Suc.prems by auto
  have pb: "pushed_back b > 0" using Suc.prems by simp
  have p: "snd (pop b) = b\<lparr>items := butlast (items b), pushed_back := pushed_back b - 1\<rparr>"
    using ne pb by (simp add: pop_def Let_def)
  show ?case using Suc.prems ne
    by (simp add: p Suc.IH butlast_conv_take)
qed

lemma shifts_pushed:
  "int k \<le> pushed_front b \<Longrightarrow> k \<le> length (items b) \<Longrightarrow>
   shifts k b = b\<lparr>items := drop k (items b), pushed_front := pushed_front b - int k\<rparr>"
proof (induction k arbitrary: b)
  case 0 then show ?case by simp
next
  case (Suc k)
  have ne: "items b \<noteq> []" using Suc.prems by auto
  have pb: "pushed_front b > 0" using Suc.prems by simp
  have p: "snd (shift b) = b\<lparr>items := tl (items b), pushed_front := pushed_front b - 1\<rparr>"
    using ne pb by (simp add: shift_def Let_def)
  show ?case using Suc.prems ne
    by (simp add: p Suc.IH drop_Suc)
qed

text \<open>
  C7. On a buffer whose four counters are zero, pushing \<open>k\<close> items at the back and then
  popping \<open>k\<close> times, or unshifting \<open>k\<close> items at the front and then shifting \<open>k\<close>
  times, leaves all four counters at zero (and the elements as they were).
\<close>

theorem push_pop_cancel:
  assumes "counters_zero b"
  shows "counters_zero (pops (length its) (push its b)) \<and>
         items (pops (length its) (push its b)) = items b \<and>
         counters_zero (shifts (length its) (unshift its b)) \<and>
         items (shifts (length its) (unshift its b)) = items b"
  using assms
  by (simp add: pops_pushed shifts_pushed push_def unshift_def counters_zero_def)


subsection \<open>Deleting from the middle of the synced region\<close>

lemma pops_synced:
  "pushed_back b = 0 \<Longrightarrow> 0 \<le> pushed_front b \<Longrightarrow> int k + pushed_front b \<le> blength b \<Longrightarrow>
   pops k b = b\<lparr>items := take (length (items b) - k) (items b), poped_back := poped_back b + int k\<rparr>"
proof (induction k arbitrary: b)
  case 0 then show ?case by simp
next
  case (Suc k)
  have ne: "items b \<noteq> []" using Suc.prems by (auto simp: blength_def)
  have p: "snd (pop b) = b\<lparr>items := butlast (items b), poped_back := poped_back b + 1\<rparr>"
    using ne Suc.prems by (simp add: pop_def Let_def)
  show ?case using Suc.prems ne
    by (simp add: p Suc.IH butlast_conv_take blength_def)
qed

lemma blength_upd:
  "blength (b\<lparr>pushed_back := x\<rparr>) = blength b"
  "blength (b\<lparr>pushed_front := x\<rparr>) = blength b"
  "blength (b\<lparr>poped_back := x\<rparr>) = blength b"
  "blength (b\<lparr>poped_front := x\<rparr>) = blength b"
  "blength (b\<lparr>items := xs\<rparr>) = int (length xs)"
  by (simp_all add: blength_def)

lemma pops_add: "pops (j + k) b = pops k (pops j b)"
  by (induction j arbitrary: b) auto

lemma pops_tail:
  assumes ok: "counters_ok b" and mid: "pushed_front b < start" "start < blength b - pushed_back b"
  shows "pops (nat (blength b - start)) b =
         b\<lparr>items := take (nat start) (items b),
           poped_back := poped_back b + (blength b - pushed_back b - start),
           pushed_back := 0\<rparr>"
proof -
  define k1 where "k1 = nat (pushed_back b)"
  define k2 where "k2 = nat (blength b - pushed_back b - start)"
  have pb: "0 \<le> pushed_back b" "0 \<le> pushed_front b" "pushed_back b \<le> blength b"
    using ok by (auto simp: counters_ok_def)
  have split: "nat (blength b - start) = k1 + k2" using pb mid by (simp add: k1_def k2_def)
  have k1: "int k1 = pushed_back b" "k1 \<le> length (items b)" using pb by (auto simp: k1_def blength_def)
  have s1: "pops k1 b = b\<lparr>items := take (length (items b) - k1) (items b), pushed_back := 0\<rparr>"
    using pops_pushed[of k1 b] k1 by simp
  let ?b1 = "b\<lparr>items := take (length (items b) - k1) (items b), pushed_back := 0\<rparr>"
  have l1: "blength ?b1 = blength b - pushed_back b" using k1 by (simp add: blength_def)
  have s2: "pops k2 ?b1 = ?b1\<lparr>items := take (length (items ?b1) - k2) (items ?b1), poped_back := poped_back ?b1 + int k2\<rparr>"
    using pb mid l1 by (intro pops_synced) (simp_all add: k2_def)
  have tk: "length (items b) - k1 - k2 = nat start" using pb mid k1 by (simp add: k2_def blength_def)
  have k2: "int k2 = blength b - pushed_back b - start" using mid by (simp add: k2_def)
  have it: "take (length (items ?b1) - k2) (items ?b1) = take (nat start) (items b)"
    using tk by (simp add: min_absorb1)
  show ?thesis unfolding split pops_add s1 s2 it by (simp add: k2)
qed
lemma splice_mid:
  assumes ok: "counters_ok b"
    and mid: "pushed_front b < start" "start < blength b - pushed_back b"
    and dc: "0 < dc" "start + dc \<le> blength b"
  shows "(start + dc < blength b - pushed_back b \<longrightarrow>
            splice (Idx start) (Some dc) its b = Inl (RangeError_delete_middle, b)) \<and>
         (blength b - pushed_back b \<le> start + dc \<longrightarrow>
            splice (Idx start) (Some dc) its b =
              Inr (take (nat dc) (drop (nat start) (items b)),
                   b\<lparr>items := take (nat start) (items b) @ its @ drop (nat (start + dc)) (items b),
                     poped_back := poped_back b + (blength b - pushed_back b - start),
                     pushed_back := pushed_back b - (start + dc - (blength b - pushed_back b))
                                    + int (length its)\<rparr>))"
proof -
  have pf: "0 \<le> pushed_front b" "0 \<le> pushed_back b" using ok by (auto simp: counters_ok_def)
  have st: "normalize_start (Idx start) (blength b) = start" using mid pf
    by (simp add: normalize_start_def)
  have d: "normalize_deleteCount (Some dc) (blength b) start = dc" using dc
    by (simp add: normalize_deleteCount_def)
  have ud: "updateDelete start dc (blength b) b = delete_case3 start (b, dc, blength b)"
    using mid dc by (simp add: updateDelete_def delete_case1_def delete_case2_def)
  show ?thesis
  proof (intro conjI impI)
    assume "start + dc < blength b - pushed_back b"
    then show "splice (Idx start) (Some dc) its b = Inl (RangeError_delete_middle, b)"
      using mid by (simp add: splice_def st d ud delete_case3_def)
  next
    assume ext: "blength b - pushed_back b \<le> start + dc"
    let ?c = "blength b - pushed_back b - start"
    have c: "min dc (blength b - start - pushed_back b) = ?c" using ext by simp
    have d3: "delete_case3 start (b, dc, blength b) =
              Inr (b\<lparr>poped_back := poped_back b + ?c, pushed_back := pushed_back b - (dc - ?c)\<rparr>)"
    proof (cases "dc = ?c")
      case True
      then show ?thesis using mid ext
        by (simp add: delete_case3_def d_helper_def Let_def)
    next
      case False
      then show ?thesis using mid ext dc
        by (simp add: delete_case3_def delete_case4_def d_helper_def Let_def c)
    qed
    let ?b1 = "b\<lparr>poped_back := poped_back b + ?c, pushed_back := pushed_back b - (dc - ?c)\<rparr>"
    have l1: "blength ?b1 = blength b" by (simp add: blength_def)
    have ui: "updateInsert start (int (length its)) (blength ?b1 - dc) ?b1 =
              Inr (?b1\<lparr>pushed_back := pushed_back ?b1 + int (length its)\<rparr>)"
      using mid ext by (simp add: updateInsert_def blength_upd)
    have as: "array_splice start dc its (items b) =
              (take (nat dc) (drop (nat start) (items b)),
               take (nat start) (items b) @ its @ drop (nat (start + dc)) (items b))"
      using mid dc pf by (simp add: array_splice_def Let_def blength_def)
    have len: "int (length (take (nat start) (items b) @ its @ drop (nat (start + dc)) (items b))) =
               blength b - dc + int (length its)"
      using mid dc pf by (simp add: blength_def)
    show "splice (Idx start) (Some dc) its b =
              Inr (take (nat dc) (drop (nat start) (items b)),
                   b\<lparr>items := take (nat start) (items b) @ its @ drop (nat (start + dc)) (items b),
                     poped_back := poped_back b + (blength b - pushed_back b - start),
                     pushed_back := pushed_back b - (start + dc - (blength b - pushed_back b))
                                    + int (length its)\<rparr>)"
    proof -
      let ?b2 = "?b1\<lparr>pushed_back := pushed_back ?b1 + int (length its)\<rparr>"
      let ?xs = "take (nat start) (items b) @ its @ drop (nat (start + dc)) (items b)"
      have i2: "items ?b2 = items b" by simp
      have l2: "blength ?b2 = blength b" by (simp add: blength_def)
      have l3: "blength (?b2\<lparr>items := ?xs\<rparr>) = blength b - dc + int (length its)"
        using len by (simp add: blength_upd)
      have fin: "?b2\<lparr>items := ?xs\<rparr> =
                 b\<lparr>items := ?xs,
                   poped_back := poped_back b + (blength b - pushed_back b - start),
                   pushed_back := pushed_back b - (start + dc - (blength b - pushed_back b))
                                  + int (length its)\<rparr>"
        by simp
      show ?thesis
        unfolding splice_def st d ud d3 Let_def
        apply (simp only: sum.case ui l2 i2 as prod.case l3)
        apply (simp only: fin simp_thms if_False)
        done
    qed
  qed
qed



text \<open>
  C1 (as amended). On a buffer whose counters are in order, take a deletion of
  \<open>dc > 0\<close> elements that starts strictly inside the synced middle. If the deleted
  range ends before the tail boundary of the synced region, \<^verbatim>\<open>splice\<close> throws the
  invalid-mutation RangeError (and the buffer is untouched). Otherwise it succeeds:
  \<open>poped_back\<close> grows by the number of deleted elements that lie in the synced region,
  \<open>pushed_back\<close> shrinks by the number of deleted elements beyond the tail boundary (and
  grows by the number of inserted items). A deletion that ends exactly at the tail
  boundary therefore adds the whole deleted size to \<open>poped_back\<close>; one that runs to the
  end of the buffer has exactly the effect of that many calls of \<^verbatim>\<open>pop()\<close>.
\<close>

theorem splice_mid_delete:
  assumes "counters_ok b"
    and "pushed_front b < start" "start < blength b - pushed_back b"
    and "0 < dc" "start + dc \<le> blength b"
  shows "(start + dc < blength b - pushed_back b \<longrightarrow>
            splice (Idx start) (Some dc) its b = Inl (RangeError_delete_middle, b)) \<and>
         (blength b - pushed_back b \<le> start + dc \<longrightarrow>
            splice (Idx start) (Some dc) its b =
              Inr (take (nat dc) (drop (nat start) (items b)),
                   b\<lparr>items := take (nat start) (items b) @ its @ drop (nat (start + dc)) (items b),
                     poped_back := poped_back b + (blength b - pushed_back b - start),
                     pushed_back := pushed_back b - (start + dc - (blength b - pushed_back b))
                                    + int (length its)\<rparr>)) \<and>
         (start + dc = blength b - pushed_back b \<longrightarrow>
            (\<exists>r b'. splice (Idx start) (Some dc) [] b = Inr (r, b') \<and>
                    poped_back b' = poped_back b + dc \<and> pushed_back b' = pushed_back b \<and>
                    pushed_front b' = pushed_front b \<and> poped_front b' = poped_front b)) \<and>
         (start + dc = blength b \<longrightarrow>
            splice (Idx start) (Some dc) [] b = Inr (drop (nat start) (items b), pops (nat dc) b))"
proof -
  note sm = splice_mid[OF assms]
  have pb: "0 \<le> pushed_back b" using assms(1) by (simp add: counters_ok_def)
  have a: "start + dc < blength b - pushed_back b \<longrightarrow>
            splice (Idx start) (Some dc) its b = Inl (RangeError_delete_middle, b)"
    using sm[of its] by (rule conjunct1)
  have b: "blength b - pushed_back b \<le> start + dc \<longrightarrow>
            splice (Idx start) (Some dc) its b =
              Inr (take (nat dc) (drop (nat start) (items b)),
                   b\<lparr>items := take (nat start) (items b) @ its @ drop (nat (start + dc)) (items b),
                     poped_back := poped_back b + (blength b - pushed_back b - start),
                     pushed_back := pushed_back b - (start + dc - (blength b - pushed_back b))
                                    + int (length its)\<rparr>)"
    using sm[of its] by (rule conjunct2)
  have c: "start + dc = blength b - pushed_back b \<longrightarrow>
            (\<exists>r b'. splice (Idx start) (Some dc) [] b = Inr (r, b') \<and>
                    poped_back b' = poped_back b + dc \<and> pushed_back b' = pushed_back b \<and>
                    pushed_front b' = pushed_front b \<and> poped_front b' = poped_front b)"
  proof
    assume e: "start + dc = blength b - pushed_back b"
    then have "blength b - pushed_back b \<le> start + dc" by simp
    with sm[of "[]"] have "splice (Idx start) (Some dc) [] b =
              Inr (take (nat dc) (drop (nat start) (items b)),
                   b\<lparr>items := take (nat start) (items b) @ [] @ drop (nat (start + dc)) (items b),
                     poped_back := poped_back b + (blength b - pushed_back b - start),
                     pushed_back := pushed_back b - (start + dc - (blength b - pushed_back b))
                                    + int (length ([] :: 'a list))\<rparr>)"
      by blast
    then show "\<exists>r b'. splice (Idx start) (Some dc) [] b = Inr (r, b') \<and>
                    poped_back b' = poped_back b + dc \<and> pushed_back b' = pushed_back b \<and>
                    pushed_front b' = pushed_front b \<and> poped_front b' = poped_front b"
      using e by simp
  qed
  have d: "start + dc = blength b \<longrightarrow>
            splice (Idx start) (Some dc) [] b = Inr (drop (nat start) (items b), pops (nat dc) b)"
  proof
    assume e: "start + dc = blength b"
    then have dc: "dc = blength b - start" by simp
    have le: "blength b - pushed_back b \<le> start + dc" using e pb by simp
    with sm[of "[]"] have s: "splice (Idx start) (Some dc) [] b =
              Inr (take (nat dc) (drop (nat start) (items b)),
                   b\<lparr>items := take (nat start) (items b) @ [] @ drop (nat (start + dc)) (items b),
                     poped_back := poped_back b + (blength b - pushed_back b - start),
                     pushed_back := pushed_back b - (start + dc - (blength b - pushed_back b))
                                    + int (length ([] :: 'a list))\<rparr>)"
      by blast
    have t: "take (nat dc) (drop (nat start) (items b)) = drop (nat start) (items b)"
      using e assms(2,3) pb by (simp add: blength_def)
    have dr: "drop (nat (start + dc)) (items b) = []" using e by (simp add: blength_def)
    have p: "pops (nat dc) b =
         b\<lparr>items := take (nat start) (items b),
           poped_back := poped_back b + (blength b - pushed_back b - start),
           pushed_back := 0\<rparr>"
      unfolding dc using pops_tail[OF assms(1-3)] .
    show "splice (Idx start) (Some dc) [] b = Inr (drop (nat start) (items b), pops (nat dc) b)"
      unfolding s t dr p using e by simp
  qed
  from a b c d show ?thesis by (intro conjI)
qed

subsection \<open>Evaluating a call of splice\<close>




text \<open>
  C1 as stated fails where the deleted range runs past the tail boundary into the
  unsynced back region: of the three elements deleted here, two are synced and one is
  an unsynced push, so \<open>poped_back\<close> grows by 2, not by the deleted size 3.
\<close>

theorem splice_mid_delete_counterexample:
  "counters_ok \<lparr>items = [10, 20, 30, 40 :: nat], pushed_back = 1, pushed_front = 0,
                poped_back = 0, poped_front = 0\<rparr>
   \<and> splice (Idx 1) (Some 3) []
       \<lparr>items = [10, 20, 30, 40 :: nat], pushed_back = 1, pushed_front = 0,
        poped_back = 0, poped_front = 0\<rparr> =
     Inr ([20, 30, 40], \<lparr>items = [10], pushed_back = 0, pushed_front = 0,
                         poped_back = 2, poped_front = 0\<rparr>)
   \<and> poped_back \<lparr>items = [10 :: nat], pushed_back = 0, pushed_front = 0,
                  poped_back = 2, poped_front = 0\<rparr> \<noteq>
     poped_back \<lparr>items = [10, 20, 30, 40 :: nat], pushed_back = 1, pushed_front = 0,
                 poped_back = 0, poped_front = 0\<rparr> + 3"
  by (simp add: counters_ok_def splice_def normalize_start_def normalize_deleteCount_def
        blength_def updateDelete_def delete_case1_def delete_case2_def delete_case3_def
        delete_case4_def d_helper_def updateInsert_def array_splice_def Let_def)

theorem splice_mid_delete_witness:
  "splice (Idx 2) (Some 1) [7]
     \<lparr>items = [10, 20, 30, 40, 50 :: nat], pushed_back = 1, pushed_front = 1,
      poped_back = 0, poped_front = 0\<rparr> =
   Inl (RangeError_delete_middle,
     \<lparr>items = [10, 20, 30, 40, 50], pushed_back = 1, pushed_front = 1,
      poped_back = 0, poped_front = 0\<rparr>)
   \<and> splice (Idx 2) (Some 3) []
     \<lparr>items = [10, 20, 30, 40, 50 :: nat], pushed_back = 1, pushed_front = 1,
      poped_back = 0, poped_front = 0\<rparr> =
   Inr ([30, 40, 50],
     pops 3 \<lparr>items = [10, 20, 30, 40, 50], pushed_back = 1, pushed_front = 1,
             poped_back = 0, poped_front = 0\<rparr>)"
proof -
  let ?b = "\<lparr>items = [10, 20, 30, 40, 50 :: nat], pushed_back = 1, pushed_front = 1,
             poped_back = 0, poped_front = 0\<rparr>"
  have ok: "counters_ok ?b" by (simp add: counters_ok_def blength_def)
  have l: "blength ?b = 5" by (simp add: blength_def)
  have m1: "pushed_front ?b < 2" and m2: "2 < blength ?b - pushed_back ?b" by (simp_all add: l)
  have a1: "(0::int) < 1" and a2: "2 + 1 \<le> blength ?b" and a3: "2 + 1 < blength ?b - pushed_back ?b"
    by (simp_all add: l)
  have c1: "(0::int) < 3" and c2: "2 + 3 \<le> blength ?b" and c3: "2 + 3 = blength ?b"
    by (simp_all add: l)
  have w1: "splice (Idx 2) (Some 1) [7] ?b = Inl (RangeError_delete_middle, ?b)"
    using splice_mid_delete[OF ok m1 m2 a1 a2, of "[7]", THEN conjunct1] a3 by (rule mp)
  have w2: "splice (Idx 2) (Some 3) [] ?b = Inr (drop (nat 2) (items ?b), pops (nat 3) ?b)"
    using splice_mid_delete[OF ok m1 m2 c1 c2, of "[]", THEN conjunct2, THEN conjunct2,
            THEN conjunct2] c3 by (rule mp)
  have dr: "drop (nat 2) (items ?b) = [30, 40, 50]" by simp
  have n3: "nat 3 = 3" by simp
  from w1 w2[unfolded dr n3] show ?thesis by (intro conjI)
qed

theorem push_pop_cancel_witness:
  "counters_zero \<lparr>items = [1, 2 :: nat], pushed_back = 0, pushed_front = 0,
                  poped_back = 0, poped_front = 0\<rparr>
   \<and> counters_zero (pops 3 (push [3, 4, 5]
        \<lparr>items = [1, 2 :: nat], pushed_back = 0, pushed_front = 0,
         poped_back = 0, poped_front = 0\<rparr>))
   \<and> counters_zero (shifts 3 (unshift [3, 4, 5]
        \<lparr>items = [1, 2 :: nat], pushed_back = 0, pushed_front = 0,
         poped_back = 0, poped_front = 0\<rparr>))"
proof -
  let ?b = "\<lparr>items = [1, 2 :: nat], pushed_back = 0, pushed_front = 0,
             poped_back = 0, poped_front = 0\<rparr>"
  have z: "counters_zero ?b" by (simp add: counters_zero_def)
  have l: "length [3, 4, 5 :: nat] = 3" by simp
  note w = push_pop_cancel[OF z, of "[3, 4, 5]", unfolded l]
  from w z show ?thesis by blast
qed

section \<open>The domain scale model\<close>

subsection \<open>The x-scale\<close>

lemma update_step_xScale:
  "xScale_domain (update_step opts nice m all_series) = x_after opts all_series m"
  by (cases "opt_xRange opts"; cases "opt_yRange opts")
     (auto simp: update_step_def updateModel_def x_after_def Let_def
           split: sum.splits option.splits)

lemma update_step_fixed:
  assumes "opt_xRange opts = Fixed r" "\<not> opt_realTime opts"
    and "xScale_domain m = (mm_min r, mm_max r)"
  shows "xScale_domain (update_step opts nice m all_series) = (mm_min r, mm_max r)"
  using assms by (simp add: update_step_xScale x_after_def Let_def)

lemma update_calls_fixed:
  assumes "opt_xRange opts = Fixed r" "\<not> opt_realTime opts"
  shows "xScale_domain m = (mm_min r, mm_max r) \<Longrightarrow>
         xScale_domain (update_calls opts nice m snapshots) = (mm_min r, mm_max r)"
proof (induction snapshots arbitrary: m)
  case Nil
  then show ?case by (simp add: update_calls_def)
next
  case (Cons s ss)
  have "xScale_domain (update_step opts nice m s) = (mm_min r, mm_max r)"
    using update_step_fixed[OF assms Cons.prems] .
  from Cons.IH[OF this] show ?case by (simp add: update_calls_def)
qed

text \<open>
  C5 (as amended). When a fixed \<^verbatim>\<open>xRange\<close> is configured and \<^verbatim>\<open>realTime\<close> is off, the
  domain of the x-scale equals the configured \<open>[xRange.min, xRange.max]\<close> after every
  sequence of \<^verbatim>\<open>updateModel\<close> calls on a new model, whatever the series hold; and a
  call with at least one non-empty series sets the domain to the configured range from
  any state of the model.
\<close>

theorem fixed_xRange_kept:
  assumes "opt_xRange opts = Fixed r" "\<not> opt_realTime opts"
  shows "xScale_domain (update_calls opts nice (new_RenderModel opts) snapshots) =
           (mm_min r, mm_max r) \<and>
         (filter (\<lambda>s. blength s > 0) all_series \<noteq> [] \<longrightarrow>
            xScale_domain (update_step opts nice m all_series) = (mm_min r, mm_max r))"
proof
  have "xScale_domain (new_RenderModel opts) = (mm_min r, mm_max r)"
    using assms(1) by (simp add: new_RenderModel_def)
  then show "xScale_domain (update_calls opts nice (new_RenderModel opts) snapshots) =
           (mm_min r, mm_max r)"
    by (rule update_calls_fixed[OF assms])
next
  show "filter (\<lambda>s. blength s > 0) all_series \<noteq> [] \<longrightarrow>
            xScale_domain (update_step opts nice m all_series) = (mm_min r, mm_max r)"
    using assms by (simp add: update_step_xScale x_after_def Let_def)
qed

text \<open>
  C5 as stated fails with \<^verbatim>\<open>realTime\<close> on: the real-time branch is taken first and
  slides the domain, here from the configured \<open>[0, 10]\<close> to \<open>[10, 20]\<close>.
\<close>

theorem fixed_xRange_counterexample:
  "xScale_domain (new_RenderModel
      \<lparr>opt_realTime = True, opt_xRange = Fixed \<lparr>mm_min = Fin 0, mm_max = Fin 10\<rparr>,
       opt_yRange = Auto\<rparr>) = (Fin 0, Fin 10)
   \<and> xScale_domain (update_step
      \<lparr>opt_realTime = True, opt_xRange = Fixed \<lparr>mm_min = Fin 0, mm_max = Fin 10\<rparr>,
       opt_yRange = Auto\<rparr> id
      (new_RenderModel
        \<lparr>opt_realTime = True, opt_xRange = Fixed \<lparr>mm_min = Fin 0, mm_max = Fin 10\<rparr>,
         opt_yRange = Auto\<rparr>)
      [new_DataPointsBuffer [DataPoint (Fin 20) (Fin 5)]]) = (Fin 10, Fin 20)
   \<and> (Fin 10, Fin 20) \<noteq> (Fin 0, Fin 10)"
  by (simp add: update_step_xScale x_after_def new_RenderModel_def new_DataPointsBuffer_def
        blength_def Math_max_def Math_min_def js_max2_def js_min2_def)

theorem fixed_xRange_kept_witness:
  "xScale_domain (update_calls
      \<lparr>opt_realTime = False, opt_xRange = Fixed \<lparr>mm_min = Fin 0, mm_max = Fin 10\<rparr>,
       opt_yRange = Auto\<rparr> id
      (new_RenderModel
        \<lparr>opt_realTime = False, opt_xRange = Fixed \<lparr>mm_min = Fin 0, mm_max = Fin 10\<rparr>,
         opt_yRange = Auto\<rparr>)
      [[new_DataPointsBuffer [DataPoint (Fin 20) (Fin 5)]]]) = (Fin 0, Fin 10)
   \<and> xScale_domain (update_step
      \<lparr>opt_realTime = False, opt_xRange = Fixed \<lparr>mm_min = Fin 0, mm_max = Fin 10\<rparr>,
       opt_yRange = Auto\<rparr> id
      \<lparr>xScale_domain = (Fin 3, Fin 4), yScale_domain = (Fin 0, Fin 1),
       xRange = None, yRange = None\<rparr>
      [new_DataPointsBuffer [DataPoint (Fin 20) (Fin 5)]]) = (Fin 0, Fin 10)"
proof -
  let ?o = "\<lparr>opt_realTime = False, opt_xRange = Fixed \<lparr>mm_min = Fin 0, mm_max = Fin 10\<rparr>,
             opt_yRange = Auto\<rparr>"
  let ?r = "\<lparr>mm_min = Fin 0, mm_max = Fin 10\<rparr>"
  let ?s = "[new_DataPointsBuffer [DataPoint (Fin 20) (Fin 5)]]"
  have h1: "opt_xRange ?o = Fixed ?r" by simp
  have h2: "\<not> opt_realTime ?o" by simp
  have h3: "filter (\<lambda>s. blength s > 0) ?s \<noteq> []"
    by (simp add: new_DataPointsBuffer_def blength_def)
  note w = fixed_xRange_kept[OF h1 h2, of id "[?s]" ?s
             "\<lparr>xScale_domain = (Fin 3, Fin 4), yScale_domain = (Fin 0, Fin 1),
               xRange = None, yRange = None\<rparr>"]
  from w[THEN conjunct1] w[THEN conjunct2, THEN mp, OF h3] show ?thesis by simp
qed

subsection \<open>The recorded y-range\<close>

lemma js_le_refl: "a \<noteq> NaN \<Longrightarrow> js_le a a"
  by (cases a) (simp_all add: js_le_def)

lemma js_le_trans: "js_le a b \<Longrightarrow> js_le b c \<Longrightarrow> js_le a c"
  by (cases a; cases b; cases c) (simp_all add: js_le_def)

lemma js_min2_props:
  "a \<noteq> NaN \<Longrightarrow> b \<noteq> NaN \<Longrightarrow>
   js_min2 a b \<noteq> NaN \<and> js_le (js_min2 a b) a \<and> js_le (js_min2 a b) b"
  by (cases a; cases b) (simp_all add: js_min2_def js_le_def)

lemma js_max2_props:
  "a \<noteq> NaN \<Longrightarrow> b \<noteq> NaN \<Longrightarrow>
   js_max2 a b \<noteq> NaN \<and> js_le a (js_max2 a b) \<and> js_le b (js_max2 a b)"
  by (cases a; cases b) (simp_all add: js_max2_def js_le_def)

lemma Math_min_props:
  "\<forall>x\<in>set xs. x \<noteq> NaN \<Longrightarrow>
   Math_min xs \<noteq> NaN \<and> (\<forall>x\<in>set xs. js_le (Math_min xs) x)"
proof (induction xs)
  case Nil
  then show ?case by (simp add: Math_min_def)
next
  case (Cons a xs)
  then have ih: "Math_min xs \<noteq> NaN" "\<forall>x\<in>set xs. js_le (Math_min xs) x" by auto
  have a: "a \<noteq> NaN" using Cons.prems by simp
  have e: "Math_min (a # xs) = js_min2 a (Math_min xs)" by (simp add: Math_min_def)
  note p = js_min2_props[OF a ih(1)]
  show ?case unfolding e using p ih(2) by (auto intro: js_le_trans)
qed

lemma Math_max_props:
  "\<forall>x\<in>set xs. x \<noteq> NaN \<Longrightarrow>
   Math_max xs \<noteq> NaN \<and> (\<forall>x\<in>set xs. js_le x (Math_max xs))"
proof (induction xs)
  case Nil
  then show ?case by (simp add: Math_max_def)
next
  case (Cons a xs)
  then have ih: "Math_max xs \<noteq> NaN" "\<forall>x\<in>set xs. js_le x (Math_max xs)" by auto
  have a: "a \<noteq> NaN" using Cons.prems by simp
  have e: "Math_max (a # xs) = js_max2 a (Math_max xs)" by (simp add: Math_max_def)
  note p = js_max2_props[OF a ih(1)]
  show ?case unfolding e using p ih(2) by (auto intro: js_le_trans)
qed

lemma calcMinMaxY_loop_no_NaN:
  "calcMinMaxY_loop arr i e mx mn = Inr r \<Longrightarrow> mx \<noteq> NaN \<Longrightarrow> mn \<noteq> NaN \<Longrightarrow>
   mm_min r \<noteq> NaN \<and> mm_max r \<noteq> NaN"
proof (induction arr i e mx mn rule: calcMinMaxY_loop.induct)
  case (1 arr i e mx mn)
  show ?case
  proof (cases "i < e")
    case False
    then show ?thesis using "1.prems" by (subst (asm) calcMinMaxY_loop.simps) auto
  next
    case True
    from "1.prems"(1) True obtain dp where dp: "array_get arr i = Some dp"
      by (subst (asm) calcMinMaxY_loop.simps) (auto split: option.splits)
    let ?v = "dp_y dp"
    let ?mx = "if js_gt ?v mx then ?v else mx"
    let ?mn = "if js_lt ?v mn then ?v else mn"
    have rec: "calcMinMaxY_loop arr (i + 1) e ?mx ?mn = Inr r"
      using "1.prems"(1) True dp by (subst (asm) calcMinMaxY_loop.simps) (simp add: Let_def)
    have mx: "?mx \<noteq> NaN" using "1.prems"(2) by (cases ?v; cases mx) (auto simp: js_gt_def)
    have mn: "?mn \<noteq> NaN" using "1.prems"(3) by (cases ?v; cases mn) auto
    show ?thesis using "1.IH"[OF True dp refl refl refl rec mx mn] .
  qed
qed

lemma calcMinMaxY_no_NaN:
  "calcMinMaxY arr s e = Inr r \<Longrightarrow> mm_min r \<noteq> NaN \<and> mm_max r \<noteq> NaN"
  using calcMinMaxY_loop_no_NaN[of arr s e NegInf PosInf r] by (simp add: calcMinMaxY_def)

lemma series_minMaxY_no_NaN:
  "series_minMaxY ss = Inr l \<Longrightarrow> \<forall>r\<in>set l. mm_min r \<noteq> NaN \<and> mm_max r \<noteq> NaN"
proof (induction ss arbitrary: l)
  case Nil
  then show ?case by simp
next
  case (Cons s ss)
  from Cons.prems obtain f b rest where
    f: "calcMinMaxY (items s) 0 (pushed_front s) = Inr f" and
    b: "calcMinMaxY (items s) (blength s - pushed_back s) (blength s) = Inr b" and
    r: "series_minMaxY ss = Inr rest" and l: "l = f # b # rest"
    by (auto split: sum.splits)
  show ?case unfolding l
    using calcMinMaxY_no_NaN[OF f] calcMinMaxY_no_NaN[OF b] Cons.IH[OF r] by simp
qed

lemma unionMinMax_props:
  assumes "\<forall>r\<in>set l. mm_min r \<noteq> NaN \<and> mm_max r \<noteq> NaN"
  shows "mm_min (unionMinMax l) \<noteq> NaN \<and> mm_max (unionMinMax l) \<noteq> NaN \<and>
         (\<forall>r\<in>set l. js_le (mm_min (unionMinMax l)) (mm_min r) \<and>
                      js_le (mm_max r) (mm_max (unionMinMax l)))"
proof -
  have a: "\<forall>x\<in>set (map mm_min l). x \<noteq> NaN" using assms by simp
  have b: "\<forall>x\<in>set (map mm_max l). x \<noteq> NaN" using assms by simp
  show ?thesis using Math_min_props[OF a] Math_max_props[OF b]
    by (simp add: unionMinMax_def)
qed

lemma update_step_yRange:
  "yRange (update_step opts nice m all_series) = yRange m \<or>
   (\<exists>l. series_minMaxY (filter (\<lambda>s. blength s > 0) all_series) = Inr l \<and>
        yRange (update_step opts nice m all_series) =
          Some (unionMinMax (case yRange m of Some r \<Rightarrow> l @ [r] | None \<Rightarrow> l)))"
  by (cases "opt_xRange opts"; cases "opt_yRange opts")
     (auto simp: update_step_def updateModel_def Let_def split: sum.splits)

lemma update_step_mono:
  assumes ok: "yRange_ok m"
  shows "yRange_ok (update_step opts nice m all_series) \<and>
         (\<forall>r. yRange m = Some r \<longrightarrow>
            (\<exists>r'. yRange (update_step opts nice m all_series) = Some r' \<and>
                  js_le (mm_min r') (mm_min r) \<and> js_le (mm_max r) (mm_max r')))"
proof -
  let ?m' = "update_step opts nice m all_series"
  from update_step_yRange[of opts nice m all_series]
  consider (same) "yRange ?m' = yRange m"
    | (upd) l where "series_minMaxY (filter (\<lambda>s. blength s > 0) all_series) = Inr l"
        "yRange ?m' = Some (unionMinMax (case yRange m of Some r \<Rightarrow> l @ [r] | None \<Rightarrow> l))"
    by blast
  then show ?thesis
  proof cases
    case same
    then show ?thesis using ok by (auto simp: yRange_ok_def js_le_refl split: option.splits)
  next
    case upd
    let ?l = "case yRange m of Some r \<Rightarrow> l @ [r] | None \<Rightarrow> l"
    have nn: "\<forall>r\<in>set ?l. mm_min r \<noteq> NaN \<and> mm_max r \<noteq> NaN"
      using series_minMaxY_no_NaN[OF upd(1)] ok by (auto simp: yRange_ok_def split: option.splits)
    note u = unionMinMax_props[OF nn]
    have 1: "yRange_ok ?m'" using u by (simp add: yRange_ok_def upd(2))
    have 2: "\<forall>r. yRange m = Some r \<longrightarrow>
            (\<exists>r'. yRange ?m' = Some r' \<and>
                  js_le (mm_min r') (mm_min r) \<and> js_le (mm_max r) (mm_max r'))"
    proof (intro allI impI)
      fix r assume r: "yRange m = Some r"
      then have "r \<in> set ?l" by simp
      with u have "js_le (mm_min (unionMinMax ?l)) (mm_min r) \<and>
                   js_le (mm_max r) (mm_max (unionMinMax ?l))" by blast
      then show "\<exists>r'. yRange ?m' = Some r' \<and>
                  js_le (mm_min r') (mm_min r) \<and> js_le (mm_max r) (mm_max r')"
        using upd(2) by simp
    qed
    from 1 2 show ?thesis by simp
  qed
qed

lemma update_calls_mono:
  "yRange_ok m \<Longrightarrow> yRange m = Some r \<Longrightarrow>
   \<exists>r'. yRange (update_calls opts nice m snapshots) = Some r' \<and>
        js_le (mm_min r') (mm_min r) \<and> js_le (mm_max r) (mm_max r')"
proof (induction snapshots arbitrary: m r)
  case Nil
  then show ?case by (simp add: update_calls_def yRange_ok_def js_le_refl)
next
  case (Cons s ss)
  let ?m1 = "update_step opts nice m s"
  note st = update_step_mono[OF Cons.prems(1), of opts nice s]
  from st Cons.prems(2) obtain r1 where r1: "yRange ?m1 = Some r1"
    "js_le (mm_min r1) (mm_min r)" "js_le (mm_max r) (mm_max r1)" by blast
  from st have ok1: "yRange_ok ?m1" by simp
  from Cons.IH[OF ok1 r1(1)] obtain r' where
    r': "yRange (update_calls opts nice ?m1 ss) = Some r'"
    "js_le (mm_min r') (mm_min r1)" "js_le (mm_max r1) (mm_max r')" by blast
  have "update_calls opts nice m (s # ss) = update_calls opts nice ?m1 ss"
    by (simp add: update_calls_def)
  then show ?case using r' r1 js_le_trans by metis
qed

lemma update_calls_ok:
  "yRange_ok m \<Longrightarrow> yRange_ok (update_calls opts nice m snapshots)"
proof (induction snapshots arbitrary: m)
  case Nil then show ?case by (simp add: update_calls_def)
next
  case (Cons s ss)
  from update_step_mono[OF Cons.prems, of opts nice s] have "yRange_ok (update_step opts nice m s)" by simp
  from Cons.IH[OF this] show ?case by (simp add: update_calls_def)
qed

text \<open>
  C6. Along any sequence of \<^verbatim>\<open>updateModel\<close> calls on a new model: once \<^verbatim>\<open>yRange\<close> is
  set, after any further calls it is still set, its \<open>min\<close> has not increased and its
  \<open>max\<close> has not decreased, whatever was pushed or popped in between.
\<close>

theorem yRange_monotone:
  assumes "yRange (update_calls opts nice (new_RenderModel opts) earlier) = Some r"
  shows "\<exists>r'. yRange (update_calls opts nice
                  (update_calls opts nice (new_RenderModel opts) earlier) later) = Some r' \<and>
              js_le (mm_min r') (mm_min r) \<and> js_le (mm_max r) (mm_max r')"
proof -
  have "yRange_ok (new_RenderModel opts)" by (simp add: yRange_ok_def new_RenderModel_def)
  then have "yRange_ok (update_calls opts nice (new_RenderModel opts) earlier)"
    by (rule update_calls_ok)
  from update_calls_mono[OF this assms] show ?thesis .
qed

lemma update_step_yRange_eval:
  assumes "filter (\<lambda>s. blength s > 0) all_series = ss" "ss \<noteq> []"
    and "series_minMaxY ss = Inr l"
  shows "yRange (update_step opts nice m all_series) =
           Some (unionMinMax (case yRange m of Some r \<Rightarrow> l @ [r] | None \<Rightarrow> l))"
  using assms
  by (cases "opt_xRange opts"; cases "opt_yRange opts")
     (auto simp: update_step_def updateModel_def Let_def)

theorem yRange_monotone_witness:
  "yRange (update_calls
      \<lparr>opt_realTime = False, opt_xRange = Auto, opt_yRange = Auto\<rparr> id
      (new_RenderModel \<lparr>opt_realTime = False, opt_xRange = Auto, opt_yRange = Auto\<rparr>)
      [[new_DataPointsBuffer [DataPoint (Fin 0) (Fin 5), DataPoint (Fin 1) (Fin 9)]]]) =
     Some \<lparr>mm_min = Fin 5, mm_max = Fin 9\<rparr>
   \<and> (\<exists>r'. yRange (update_calls
      \<lparr>opt_realTime = False, opt_xRange = Auto, opt_yRange = Auto\<rparr> id
      (update_calls
        \<lparr>opt_realTime = False, opt_xRange = Auto, opt_yRange = Auto\<rparr> id
        (new_RenderModel \<lparr>opt_realTime = False, opt_xRange = Auto, opt_yRange = Auto\<rparr>)
        [[new_DataPointsBuffer [DataPoint (Fin 0) (Fin 5), DataPoint (Fin 1) (Fin 9)]]])
      [[\<lparr>items = [DataPoint (Fin 0) (Fin 5)], pushed_back = 0, pushed_front = 0,
         poped_back = 1, poped_front = 0\<rparr>]]) = Some r'
      \<and> js_le (mm_min r') (Fin 5) \<and> js_le (Fin 9) (mm_max r'))"
proof -
  let ?o = "\<lparr>opt_realTime = False, opt_xRange = Auto, opt_yRange = Auto\<rparr>"
  let ?b = "new_DataPointsBuffer [DataPoint (Fin 0) (Fin 5), DataPoint (Fin 1) (Fin 9)]"
  have c1: "calcMinMaxY (items ?b) 0 (pushed_front ?b) = Inr \<lparr>mm_min = PosInf, mm_max = NegInf\<rparr>"
    by (simp add: calcMinMaxY_def calcMinMaxY_loop.simps new_DataPointsBuffer_def)
  have c2: "calcMinMaxY (items ?b) (blength ?b - pushed_back ?b) (blength ?b) =
            Inr \<lparr>mm_min = Fin 5, mm_max = Fin 9\<rparr>"
    by (simp add: calcMinMaxY_def calcMinMaxY_loop.simps new_DataPointsBuffer_def blength_def
          array_get_def js_gt_def Let_def)
  have f: "filter (\<lambda>s. blength s > 0) [?b] = [?b]"
    by (simp add: new_DataPointsBuffer_def blength_def)
  have sm: "series_minMaxY [?b] =
            Inr [\<lparr>mm_min = PosInf, mm_max = NegInf\<rparr>, \<lparr>mm_min = Fin 5, mm_max = Fin 9\<rparr>]"
    by (simp add: c1 c2)
  have ne: "[?b] \<noteq> []" by simp
  have u: "update_calls ?o id (new_RenderModel ?o) [[?b]] =
           update_step ?o id (new_RenderModel ?o) [?b]"
    by (simp add: update_calls_def)
  have y0: "yRange (new_RenderModel ?o) = None" by (simp add: new_RenderModel_def)
  have un: "unionMinMax [\<lparr>mm_min = PosInf, mm_max = NegInf\<rparr>, \<lparr>mm_min = Fin 5, mm_max = Fin 9\<rparr>] =
            \<lparr>mm_min = Fin 5, mm_max = Fin 9\<rparr>"
    by (simp add: unionMinMax_def Math_min_def Math_max_def js_min2_def js_max2_def)
  have h: "yRange (update_calls ?o id (new_RenderModel ?o) [[?b]]) =
           Some \<lparr>mm_min = Fin 5, mm_max = Fin 9\<rparr>"
    unfolding u update_step_yRange_eval[OF f ne sm] y0 by (simp add: un)
  from yRange_monotone[OF h, of "[[\<lparr>items = [DataPoint (Fin 0) (Fin 5)], pushed_back = 0,
        pushed_front = 0, poped_back = 1, poped_front = 0\<rparr>]]"] h
  show ?thesis by simp
qed

section \<open>The GPU segment\<close>

subsection \<open>The fill loops in closed form\<close>

lemma source_index_bounds:
  "1 \<le> len \<Longrightarrow> 0 \<le> source_index start bufferPos len p \<and> source_index start bufferPos len p < len"
  by (simp add: source_index_def)

lemma array_get_source_index:
  "dataPoints \<noteq> [] \<Longrightarrow>
   array_get dataPoints (source_index start bufferPos (int (length dataPoints)) p) =
     Some (dataPoints ! nat (source_index start bufferPos (int (length dataPoints)) p))"
  using source_index_bounds[of "int (length dataPoints)" start bufferPos p]
  by (cases dataPoints) (simp_all add: array_get_def)

lemma fill_cols_closed:
  "dataPoints \<noteq> [] \<Longrightarrow>
   fill_cols dataPoints start bufferPos rowStart r c buffer =
     Inr (\<lambda>k. if (r - rowStart) * BUFFER_TEXTURE_WIDTH + c \<le> k \<and>
                  k < (r - rowStart) * BUFFER_TEXTURE_WIDTH + BUFFER_TEXTURE_WIDTH
               then cell_value dataPoints start bufferPos (k + rowStart * BUFFER_TEXTURE_WIDTH)
               else buffer k)"
proof (induction dataPoints start bufferPos rowStart r c buffer rule: fill_cols.induct)
  case (1 dataPoints start bufferPos rowStart r c buffer)
  show ?case
  proof (cases "c < BUFFER_TEXTURE_WIDTH")
    case False
    then show ?thesis by (subst fill_cols.simps) (auto intro!: ext)
  next
    case True
    note ag = array_get_source_index[OF "1.prems", of start bufferPos "r * BUFFER_TEXTURE_WIDTH + c"]
    note ih = "1.IH"[OF True refl refl ag refl "1.prems"]
    have cv: "dataPoints ! nat (source_index start bufferPos (int (length dataPoints))
                (r * BUFFER_TEXTURE_WIDTH + c)) =
              cell_value dataPoints start bufferPos (r * BUFFER_TEXTURE_WIDTH + c)"
      by (simp add: cell_value_def)
    show ?thesis
      apply (subst fill_cols.simps)
      apply (simp only: True if_True Let_def ag option.case ih)
      apply (rule arg_cong[where f=Inr])
      apply (rule ext)
      apply (simp only: cv fun_upd_apply)
      using True apply (auto simp: algebra_simps)
      done
  qed
qed

lemma fill_rows_closed:
  "dataPoints \<noteq> [] \<Longrightarrow>
   fill_rows dataPoints start bufferPos rowStart r rowEnd buffer =
     Inr (\<lambda>k. if (r - rowStart) * BUFFER_TEXTURE_WIDTH \<le> k \<and>
                  k < (rowEnd - rowStart) * BUFFER_TEXTURE_WIDTH
               then cell_value dataPoints start bufferPos (k + rowStart * BUFFER_TEXTURE_WIDTH)
               else buffer k)"
proof (induction dataPoints start bufferPos rowStart r rowEnd buffer rule: fill_rows.induct)
  case (1 dataPoints start bufferPos rowStart r rowEnd buffer)
  have W: "0 < BUFFER_TEXTURE_WIDTH" by (simp add: BUFFER_TEXTURE_WIDTH_def)
  show ?case
  proof (cases "r < rowEnd")
    case False
    then have "(rowEnd - rowStart) * BUFFER_TEXTURE_WIDTH \<le> (r - rowStart) * BUFFER_TEXTURE_WIDTH"
      using W by (simp add: mult_right_mono)
    then show ?thesis using False by (subst fill_rows.simps) (auto intro!: ext)
  next
    case True
    note fc = fill_cols_closed[OF "1.prems", of start bufferPos rowStart r 0 buffer]
    have le: "(r + 1 - rowStart) * BUFFER_TEXTURE_WIDTH \<le> (rowEnd - rowStart) * BUFFER_TEXTURE_WIDTH"
      using W True by (simp add: mult_right_mono)
    show ?thesis
      apply (subst fill_rows.simps)
      apply (simp only: True if_True fc sum.case)
      apply (subst "1.IH"[OF True fc "1.prems"])
      apply (rule arg_cong[where f=Inr])
      apply (rule ext)
      using le W apply (auto simp: algebra_simps)
      done
  qed
qed

lemma syncPoints_closed:
  assumes "dataPoints \<noteq> []"
    and "sync_rows start n bufferPos (int (length dataPoints)) = (rowStart, rowEnd)"
    and "0 \<le> rowStart" "rowStart \<le> rowEnd" "rowEnd \<le> BUFFER_TEXTURE_HEIGHT"
  shows "syncPoints start n bufferPos dataPoints tex =
           Inr (\<lambda>p. if rowStart * BUFFER_TEXTURE_WIDTH \<le> p \<and> p < rowEnd * BUFFER_TEXTURE_WIDTH
                     then cell_value dataPoints start bufferPos p else tex p)"
  using assms
  apply (simp add: syncPoints_def fill_rows_closed texSubImage2D_def)
  apply (rule ext)
  apply (auto simp: algebra_simps)
  done

subsection \<open>The uploaded rows\<close>

lemma floor_div_256: "\<lfloor>real_of_int k / 256\<rfloor> = k div 256"
  using floor_divide_of_int_eq[of k 256, where ?'a = real] by simp

lemma ceil_div_256: "\<lceil>real_of_int k / 256\<rceil> = - ((- k) div 256)"
proof -
  have "\<lceil>real_of_int k / 256\<rceil> = - \<lfloor>- (real_of_int k / 256)\<rfloor>" by (simp add: ceiling_def)
  also have "- (real_of_int k / 256) = real_of_int (- k) / 256" by simp
  also have "\<lfloor>real_of_int (- k) / 256\<rfloor> = (- k) div 256" by (rule floor_div_256)
  finally show ?thesis .
qed

lemma sync_rows_bounds:
  assumes "0 \<le> n" "0 \<le> bufferPos" "bufferPos + n \<le> BUFFER_POINT_CAPACITY"
    and "sync_rows start n bufferPos len = (rowStart, rowEnd)"
  shows "0 \<le> rowStart \<and> rowStart \<le> rowEnd \<and> rowEnd \<le> BUFFER_TEXTURE_HEIGHT"
proof -
  have a: "0 \<le> bufferPos div 256" using assms(2) by simp
  have b: "bufferPos div 256 \<le> - ((- (bufferPos + n)) div 256)" using assms(1) by linarith
  have c: "- ((- (bufferPos + n)) div 256) \<le> 2048" using assms(3)
    by (simp add: BUFFER_POINT_CAPACITY_def BUFFER_TEXTURE_WIDTH_def BUFFER_TEXTURE_HEIGHT_def)
  show ?thesis using assms(4) a b c
    by (auto simp: sync_rows_def Let_def BUFFER_TEXTURE_WIDTH_def BUFFER_TEXTURE_HEIGHT_def
             split: if_splits)
qed

lemma aligned_floor: "(k::int) = k div 256 * 256 \<longleftrightarrow> k mod 256 = 0"
  using div_mult_mod_eq[of k 256] by linarith

lemma aligned_ceil: "(k::int) = - ((- k) div 256) * 256 \<longleftrightarrow> k mod 256 = 0"
proof -
  have a: "(- k) div 256 * 256 + (- k) mod 256 = - k" by (rule div_mult_mod_eq)
  have b: "(- k) mod 256 = 0 \<longleftrightarrow> k mod 256 = 0"
    by (simp only: mod_eq_0_iff_dvd dvd_minus_iff)
  from a have "k = - ((- k) div 256) * 256 \<longleftrightarrow> (- k) mod 256 = 0" by linarith
  with b show ?thesis by simp
qed

lemma sync_rows_explicit:
  "sync_rows start n bufferPos len =
     ((if 0 < \<lfloor>real_of_int bufferPos / 256\<rfloor> \<and> start = 0 \<and> bufferPos mod 256 = 0
       then \<lfloor>real_of_int bufferPos / 256\<rfloor> - 1 else \<lfloor>real_of_int bufferPos / 256\<rfloor>),
      (if \<lceil>real_of_int (bufferPos + n) / 256\<rceil> < 2048 \<and> start + n = len \<and>
          (bufferPos + n) mod 256 = 0
       then \<lceil>real_of_int (bufferPos + n) / 256\<rceil> + 1
       else \<lceil>real_of_int (bufferPos + n) / 256\<rceil>))"
  apply (simp only: floor_div_256 ceil_div_256)
  apply (simp only: sync_rows_def Let_def BUFFER_TEXTURE_WIDTH_def BUFFER_TEXTURE_HEIGHT_def)
  apply (simp only: aligned_floor aligned_ceil)
  done

text \<open>
  C8 (as amended). For a call \<^verbatim>\<open>syncPoints(start, n, bufferPos)\<close> on a non-empty data
  buffer with \<open>n \<ge> 0\<close> and the written cells inside the segment, the call returns and
  overwrites exactly the cells of the rows \<open>\<lfloor>bufferPos/256\<rfloor>\<close> up to
  \<open>\<lceil>(bufferPos+n)/256\<rceil>\<close>, each with the point read for it, and leaves every other
  cell as it was; one more row before is included when there is a row before
  (\<open>\<lfloor>bufferPos/256\<rfloor> > 0\<close>), \<open>bufferPos\<close> is row-aligned and \<open>start = 0\<close>; one more row
  after is included when there is a row after (\<open>\<lceil>(bufferPos+n)/256\<rceil> < 2048\<close>),
  \<open>bufferPos + n\<close> is row-aligned and \<open>start + n\<close> is the length of the data.
\<close>

theorem syncPoints_uploaded_rows:
  assumes "dataPoints \<noteq> []" "0 \<le> n" "0 \<le> bufferPos" "bufferPos + n \<le> BUFFER_POINT_CAPACITY"
  shows "\<exists>tex'. syncPoints start n bufferPos dataPoints tex = Inr tex' \<and>
           (\<forall>p. tex' p =
              (if (if 0 < \<lfloor>real_of_int bufferPos / 256\<rfloor> \<and> start = 0 \<and> bufferPos mod 256 = 0
                   then \<lfloor>real_of_int bufferPos / 256\<rfloor> - 1
                   else \<lfloor>real_of_int bufferPos / 256\<rfloor>) * 256 \<le> p \<and>
                  p < (if \<lceil>real_of_int (bufferPos + n) / 256\<rceil> < 2048 \<and>
                          start + n = int (length dataPoints) \<and> (bufferPos + n) mod 256 = 0
                       then \<lceil>real_of_int (bufferPos + n) / 256\<rceil> + 1
                       else \<lceil>real_of_int (bufferPos + n) / 256\<rceil>) * 256
               then dataPoints ! nat (source_index start bufferPos (int (length dataPoints)) p)
               else tex p))"
proof -
  let ?lo = "if 0 < \<lfloor>real_of_int bufferPos / 256\<rfloor> \<and> start = 0 \<and> bufferPos mod 256 = 0
             then \<lfloor>real_of_int bufferPos / 256\<rfloor> - 1 else \<lfloor>real_of_int bufferPos / 256\<rfloor>"
  let ?hi = "if \<lceil>real_of_int (bufferPos + n) / 256\<rceil> < 2048 \<and>
                start + n = int (length dataPoints) \<and> (bufferPos + n) mod 256 = 0
             then \<lceil>real_of_int (bufferPos + n) / 256\<rceil> + 1
             else \<lceil>real_of_int (bufferPos + n) / 256\<rceil>"
  have sr: "sync_rows start n bufferPos (int (length dataPoints)) = (?lo, ?hi)"
    by (rule sync_rows_explicit)
  note b = sync_rows_bounds[OF assms(2-4) sr]
  have "syncPoints start n bufferPos dataPoints tex =
           Inr (\<lambda>p. if ?lo * BUFFER_TEXTURE_WIDTH \<le> p \<and> p < ?hi * BUFFER_TEXTURE_WIDTH
                     then cell_value dataPoints start bufferPos p else tex p)"
    using b by (intro syncPoints_closed[OF assms(1) sr]) simp_all
  then show ?thesis
    by (simp only: BUFFER_TEXTURE_WIDTH_def cell_value_def) blast
qed

subsection \<open>The points read\<close>

lemma syncPoints_result:
  assumes "dataPoints \<noteq> []"
    and "sync_rows start n bufferPos (int (length dataPoints)) = (rowStart, rowEnd)"
  shows "syncPoints start n bufferPos dataPoints tex =
          (if rowEnd - rowStart < 0 then Inl RangeError_array_length
           else Inr (texSubImage2D rowStart (rowEnd - rowStart)
                  (\<lambda>k. if 0 \<le> k \<and> k < (rowEnd - rowStart) * BUFFER_TEXTURE_WIDTH
                       then cell_value dataPoints start bufferPos (k + rowStart * BUFFER_TEXTURE_WIDTH)
                       else new_texture k) tex))"
  using assms by (simp add: syncPoints_def fill_rows_closed)

lemma cell_value_clamped:
  assumes "dataPoints \<noteq> []"
  shows "cell_value dataPoints start bufferPos p =
           (if start + p - bufferPos < 0 then dataPoints ! 0
            else if int (length dataPoints) \<le> start + p - bufferPos
                 then dataPoints ! (length dataPoints - 1)
                 else dataPoints ! nat (start + p - bufferPos))"
proof -
  have l: "0 < length dataPoints" using assms by simp
  have "nat (int (length dataPoints) - 1) = length dataPoints - 1" by simp
  then show ?thesis using l
    by (auto simp: cell_value_def source_index_def max_def min_def)
qed

lemma syncPoints_cells:
  assumes "dataPoints \<noteq> []" and "syncPoints start n bufferPos dataPoints tex = Inr tex'"
  shows "tex' p = tex p \<or> tex' p = cell_value dataPoints start bufferPos p"
proof -
  obtain rs re where sr: "sync_rows start n bufferPos (int (length dataPoints)) = (rs, re)"
    by (cases "sync_rows start n bufferPos (int (length dataPoints))") auto
  from assms(2) syncPoints_result[OF assms(1) sr, of tex]
  have t: "tex' = texSubImage2D rs (re - rs)
                  (\<lambda>k. if 0 \<le> k \<and> k < (re - rs) * BUFFER_TEXTURE_WIDTH
                       then cell_value dataPoints start bufferPos (k + rs * BUFFER_TEXTURE_WIDTH)
                       else new_texture k) tex"
    by (simp split: if_splits)
  show ?thesis unfolding t by (auto simp: texSubImage2D_def algebra_simps)
qed

text \<open>
  C10 (as amended). On a non-empty data buffer every source index that
  \<^verbatim>\<open>syncPoints\<close> reads lies in \<open>[0, length - 1]\<close>, the fill loops never read outside
  the array (they return for all rows, and \<^verbatim>\<open>syncPoints\<close> never throws the TypeError of
  such a read). Every cell that the call changes, and every cell of the touched rows,
  holds the point at its own source index \<open>start + p - bufferPos\<close> when that index is
  inside the array, also when it is outside \<open>[start, start + n)\<close>; it holds the first
  point when the index is negative and the last point when it is beyond the array.
\<close>

theorem syncPoints_reads_clamped:
  assumes "dataPoints \<noteq> []"
  shows "(\<forall>p. 0 \<le> source_index start bufferPos (int (length dataPoints)) p \<and>
              source_index start bufferPos (int (length dataPoints)) p < int (length dataPoints)) \<and>
         (\<forall>rowStart r rowEnd buffer.
              \<exists>buffer'. fill_rows dataPoints start bufferPos rowStart r rowEnd buffer = Inr buffer') \<and>
         syncPoints start n bufferPos dataPoints tex \<noteq> Inl TypeError_undefined \<and>
         (\<forall>tex' p. syncPoints start n bufferPos dataPoints tex = Inr tex' \<longrightarrow>
              tex' p = tex p \<or>
              tex' p = (if start + p - bufferPos < 0 then dataPoints ! 0
                        else if int (length dataPoints) \<le> start + p - bufferPos
                             then dataPoints ! (length dataPoints - 1)
                             else dataPoints ! nat (start + p - bufferPos))) \<and>
         (0 \<le> n \<and> 0 \<le> bufferPos \<and> bufferPos + n \<le> BUFFER_POINT_CAPACITY \<longrightarrow>
            (\<exists>tex'. syncPoints start n bufferPos dataPoints tex = Inr tex' \<and>
               (\<forall>p. bufferPos div 256 * 256 \<le> p \<and> p < - ((- (bufferPos + n)) div 256) * 256 \<longrightarrow>
                  tex' p = (if start + p - bufferPos < 0 then dataPoints ! 0
                            else if int (length dataPoints) \<le> start + p - bufferPos
                                 then dataPoints ! (length dataPoints - 1)
                                 else dataPoints ! nat (start + p - bufferPos)))))"
proof (intro conjI allI impI)
  fix p
  have "1 \<le> int (length dataPoints)" using assms by (cases dataPoints) auto
  then show "0 \<le> source_index start bufferPos (int (length dataPoints)) p"
    "source_index start bufferPos (int (length dataPoints)) p < int (length dataPoints)"
    using source_index_bounds by blast+
next
  fix rowStart r rowEnd buffer
  show "\<exists>buffer'. fill_rows dataPoints start bufferPos rowStart r rowEnd buffer = Inr buffer'"
    using fill_rows_closed[OF assms] by blast
next
  obtain rs re where sr: "sync_rows start n bufferPos (int (length dataPoints)) = (rs, re)"
    by (cases "sync_rows start n bufferPos (int (length dataPoints))") auto
  show "syncPoints start n bufferPos dataPoints tex \<noteq> Inl TypeError_undefined"
    by (simp add: syncPoints_result[OF assms sr])
next
  fix tex' p
  assume "syncPoints start n bufferPos dataPoints tex = Inr tex'"
  from syncPoints_cells[OF assms this, of p]
  show "tex' p = tex p \<or>
        tex' p = (if start + p - bufferPos < 0 then dataPoints ! 0
                  else if int (length dataPoints) \<le> start + p - bufferPos
                       then dataPoints ! (length dataPoints - 1)
                       else dataPoints ! nat (start + p - bufferPos))"
    by (simp only: cell_value_clamped[OF assms])
next
  assume a: "0 \<le> n \<and> 0 \<le> bufferPos \<and> bufferPos + n \<le> BUFFER_POINT_CAPACITY"
  obtain rs re where sr: "sync_rows start n bufferPos (int (length dataPoints)) = (rs, re)"
    by (cases "sync_rows start n bufferPos (int (length dataPoints))") auto
  have b: "0 \<le> rs" "rs \<le> re" "re \<le> BUFFER_TEXTURE_HEIGHT"
    using sync_rows_bounds[OF _ _ _ sr] a by auto
  have lo: "rs \<le> bufferPos div 256" and hi: "- ((- (bufferPos + n)) div 256) \<le> re"
    using sr by (auto simp: sync_rows_def Let_def BUFFER_TEXTURE_WIDTH_def split: if_splits)
  let ?t = "\<lambda>p. if rs * BUFFER_TEXTURE_WIDTH \<le> p \<and> p < re * BUFFER_TEXTURE_WIDTH
                then cell_value dataPoints start bufferPos p else tex p"
  have s: "syncPoints start n bufferPos dataPoints tex = Inr ?t"
    using syncPoints_closed[OF assms sr b] .
  have "\<forall>p. bufferPos div 256 * 256 \<le> p \<and> p < - ((- (bufferPos + n)) div 256) * 256 \<longrightarrow>
             ?t p = cell_value dataPoints start bufferPos p"
    using lo hi by (auto simp: BUFFER_TEXTURE_WIDTH_def)
  then show "\<exists>tex'. syncPoints start n bufferPos dataPoints tex = Inr tex' \<and>
               (\<forall>p. bufferPos div 256 * 256 \<le> p \<and> p < - ((- (bufferPos + n)) div 256) * 256 \<longrightarrow>
                  tex' p = (if start + p - bufferPos < 0 then dataPoints ! 0
                            else if int (length dataPoints) \<le> start + p - bufferPos
                                 then dataPoints ! (length dataPoints - 1)
                                 else dataPoints ! nat (start + p - bufferPos)))"
    unfolding s cell_value_clamped[OF assms] by blast
qed

subsection \<open>Concrete calls\<close>

text \<open>
  C8 as stated ties the extra row to the touched region lying next to the first or the
  last row of the segment. Here the touched region is row 10 of 2048, next to neither,
  and row 9 is uploaded all the same: its first cell, zero before, holds a data point
  after the call.
\<close>

theorem syncPoints_uploaded_rows_counterexample:
  "sync_rows 0 256 2560 1000 = (9, 11)
   \<and> \<lfloor>real_of_int 2560 / 256\<rfloor> = 10 \<and> \<lceil>real_of_int (2560 + 256) / 256\<rceil> = 11
   \<and> (case syncPoints 0 256 2560 (replicate 1000 (DataPoint (Fin 1) (Fin 2))) new_texture of
         Inr t \<Rightarrow> t (9 * 256) = DataPoint (Fin 1) (Fin 2)
       | Inl e \<Rightarrow> False)
   \<and> new_texture (9 * 256) = DataPoint (Fin 0) (Fin 0)"
proof -
  let ?d = "replicate 1000 (DataPoint (Fin 1) (Fin 2))"
  have sr: "sync_rows 0 256 2560 1000 = (9, 11)"
    by (simp add: sync_rows_def Let_def BUFFER_TEXTURE_WIDTH_def BUFFER_TEXTURE_HEIGHT_def)
  have ne: "?d \<noteq> []" by simp
  have sr': "sync_rows 0 256 2560 (int (length ?d)) = (9, 11)" using sr by simp
  have s: "syncPoints 0 256 2560 ?d new_texture =
           Inr (\<lambda>p. if 9 * BUFFER_TEXTURE_WIDTH \<le> p \<and> p < 11 * BUFFER_TEXTURE_WIDTH
                     then cell_value ?d 0 2560 p else new_texture p)"
    by (rule syncPoints_closed[OF ne sr']) (simp_all add: BUFFER_TEXTURE_HEIGHT_def)
  have cv: "cell_value ?d 0 2560 (9 * 256) = DataPoint (Fin 1) (Fin 2)"
    by (simp add: cell_value_def source_index_def)
  have f: "\<lfloor>real_of_int 2560 / 256\<rfloor> = 10" "\<lceil>real_of_int (2560 + 256) / 256\<rceil> = 11"
    by (simp_all add: floor_div_256 ceil_div_256)
  have nt: "new_texture (9 * 256) = DataPoint (Fin 0) (Fin 0)" by (simp add: new_texture_def)
  have c: "(case syncPoints 0 256 2560 ?d new_texture of
         Inr t \<Rightarrow> t (9 * 256) = DataPoint (Fin 1) (Fin 2)
       | Inl e \<Rightarrow> False)"
    unfolding s using cv by (simp add: BUFFER_TEXTURE_WIDTH_def)
  from sr f c nt show ?thesis by (intro conjI)
qed

theorem syncPoints_uploaded_rows_witness:
  "\<exists>tex'. syncPoints 0 3 512
       [DataPoint (Fin 1) (Fin 10), DataPoint (Fin 2) (Fin 20), DataPoint (Fin 3) (Fin 30)]
       new_texture = Inr tex'
     \<and> tex' 255 = DataPoint (Fin 0) (Fin 0)
     \<and> tex' 256 = DataPoint (Fin 1) (Fin 10)
     \<and> tex' 513 = DataPoint (Fin 2) (Fin 20)
     \<and> tex' 767 = DataPoint (Fin 3) (Fin 30)
     \<and> tex' 768 = DataPoint (Fin 0) (Fin 0)"
proof -
  let ?d = "[DataPoint (Fin 1) (Fin 10), DataPoint (Fin 2) (Fin 20), DataPoint (Fin 3) (Fin 30)]"
  have h1: "?d \<noteq> []" by simp
  have h2: "(0::int) \<le> 3" and h3: "(0::int) \<le> 512" by simp_all
  have h4: "512 + 3 \<le> BUFFER_POINT_CAPACITY"
    by (simp add: BUFFER_POINT_CAPACITY_def BUFFER_TEXTURE_WIDTH_def BUFFER_TEXTURE_HEIGHT_def)
  from syncPoints_uploaded_rows[OF h1 h2 h3 h4, of 0 new_texture]
  obtain tex' where t: "syncPoints 0 3 512 ?d new_texture = Inr tex'"
    and c: "\<And>p. tex' p =
              (if (if 0 < \<lfloor>real_of_int 512 / 256\<rfloor> \<and> (0::int) = 0 \<and> (512::int) mod 256 = 0
                   then \<lfloor>real_of_int 512 / 256\<rfloor> - 1
                   else \<lfloor>real_of_int 512 / 256\<rfloor>) * 256 \<le> p \<and>
                  p < (if \<lceil>real_of_int (512 + 3) / 256\<rceil> < 2048 \<and>
                          0 + 3 = int (length ?d) \<and> ((512::int) + 3) mod 256 = 0
                       then \<lceil>real_of_int (512 + 3) / 256\<rceil> + 1
                       else \<lceil>real_of_int (512 + 3) / 256\<rceil>) * 256
               then ?d ! nat (source_index 0 512 (int (length ?d)) p)
               else new_texture p)"
    by blast
  have f: "\<lfloor>real_of_int 512 / 256\<rfloor> = 2" "\<lceil>real_of_int (512 + 3) / 256\<rceil> = 3"
    by (simp_all add: floor_div_256 ceil_div_256)
  have "tex' 255 = DataPoint (Fin 0) (Fin 0)" unfolding c f by (simp add: new_texture_def)
  moreover have "tex' 256 = DataPoint (Fin 1) (Fin 10)" unfolding c f by (simp add: source_index_def)
  moreover have "tex' 513 = DataPoint (Fin 2) (Fin 20)" unfolding c f by (simp add: source_index_def)
  moreover have "tex' 767 = DataPoint (Fin 3) (Fin 30)" unfolding c f by (simp add: source_index_def)
  moreover have "tex' 768 = DataPoint (Fin 0) (Fin 0)" unfolding c f by (simp add: new_texture_def)
  ultimately show ?thesis using t by blast
qed

text \<open>
  C10 as stated fills every cell outside \<open>[start, start + n)\<close> with the first or the
  last data point. Here \<open>start = 5\<close>, \<open>n = 1\<close>, \<open>bufferPos = 10\<close> on ten points: the cell 9
  has the source index 4, outside \<open>[5, 6)\<close>, and receives the point 4, which is
  neither the first nor the last.
\<close>

theorem syncPoints_reads_clamped_counterexample:
  "(case syncPoints 5 1 10 (map (\<lambda>k. DataPoint (Fin (real k)) (Fin 0)) [0..<10]) new_texture of
      Inr t \<Rightarrow> t 9 = DataPoint (Fin 4) (Fin 0)
    | Inl e \<Rightarrow> False)
   \<and> 5 + 9 - 10 = (4 :: int) \<and> \<not> (5 \<le> (4 :: int) \<and> (4 :: int) < 5 + 1)
   \<and> map (\<lambda>k. DataPoint (Fin (real k)) (Fin 0)) [0..<10] ! 0 = DataPoint (Fin 0) (Fin 0)
   \<and> map (\<lambda>k. DataPoint (Fin (real k)) (Fin 0)) [0..<10] ! 9 = DataPoint (Fin 9) (Fin 0)
   \<and> DataPoint (Fin 4) (Fin 0) \<noteq> DataPoint (Fin 0) (Fin 0)
   \<and> DataPoint (Fin 4) (Fin 0) \<noteq> DataPoint (Fin 9) (Fin 0)"
proof -
  let ?d = "map (\<lambda>k. DataPoint (Fin (real k)) (Fin 0)) [0..<10]"
  have ne: "?d \<noteq> []" by simp
  have sr: "sync_rows 5 1 10 (int (length ?d)) = (0, 1)"
    by (simp add: sync_rows_def Let_def BUFFER_TEXTURE_WIDTH_def BUFFER_TEXTURE_HEIGHT_def)
  have s: "syncPoints 5 1 10 ?d new_texture =
           Inr (\<lambda>p. if 0 * BUFFER_TEXTURE_WIDTH \<le> p \<and> p < 1 * BUFFER_TEXTURE_WIDTH
                     then cell_value ?d 5 10 p else new_texture p)"
    by (rule syncPoints_closed[OF ne sr]) (simp_all add: BUFFER_TEXTURE_HEIGHT_def)
  have cv: "cell_value ?d 5 10 9 = DataPoint (Fin 4) (Fin 0)"
    by (simp add: cell_value_def source_index_def)
  have c: "(case syncPoints 5 1 10 ?d new_texture of
      Inr t \<Rightarrow> t 9 = DataPoint (Fin 4) (Fin 0) | Inl e \<Rightarrow> False)"
    unfolding s using cv by (simp add: BUFFER_TEXTURE_WIDTH_def)
  have r: "?d ! 0 = DataPoint (Fin 0) (Fin 0)" "?d ! 9 = DataPoint (Fin 9) (Fin 0)" by simp_all
  from c r show ?thesis by simp
qed

theorem syncPoints_reads_clamped_witness:
  "[DataPoint (Fin 1) (Fin 10), DataPoint (Fin 2) (Fin 20)] \<noteq> []
   \<and> syncPoints 0 2 1 [DataPoint (Fin 1) (Fin 10), DataPoint (Fin 2) (Fin 20)] new_texture
       \<noteq> Inl TypeError_undefined
   \<and> (\<exists>tex'. syncPoints 0 2 1 [DataPoint (Fin 1) (Fin 10), DataPoint (Fin 2) (Fin 20)]
                new_texture = Inr tex'
        \<and> tex' 0 = DataPoint (Fin 1) (Fin 10) \<and> tex' 1 = DataPoint (Fin 1) (Fin 10)
        \<and> tex' 2 = DataPoint (Fin 2) (Fin 20) \<and> tex' 3 = DataPoint (Fin 2) (Fin 20))"
proof -
  let ?d = "[DataPoint (Fin 1) (Fin 10), DataPoint (Fin 2) (Fin 20)]"
  have h: "?d \<noteq> []" by simp
  note w = syncPoints_reads_clamped[OF h, of 0 1 2 new_texture]
  have w3: "syncPoints 0 2 1 ?d new_texture \<noteq> Inl TypeError_undefined"
    using w by (rule conjunct1[OF conjunct2[OF conjunct2]])
  have pre: "(0::int) \<le> 2 \<and> (0::int) \<le> 1 \<and> 1 + 2 \<le> BUFFER_POINT_CAPACITY"
    by (simp add: BUFFER_POINT_CAPACITY_def BUFFER_TEXTURE_WIDTH_def BUFFER_TEXTURE_HEIGHT_def)
  from w[THEN conjunct2, THEN conjunct2, THEN conjunct2, THEN conjunct2, THEN mp, OF pre]
  obtain tex' where t: "syncPoints 0 2 1 ?d new_texture = Inr tex'"
    and c: "\<And>p. (1::int) div 256 * 256 \<le> p \<and> p < - ((- (1 + 2)) div 256) * 256 \<Longrightarrow>
              tex' p = (if 0 + p - 1 < 0 then ?d ! 0
                        else if int (length ?d) \<le> 0 + p - 1
                             then ?d ! (length ?d - 1)
                             else ?d ! nat (0 + p - 1))"
    by blast
  have "tex' 0 = DataPoint (Fin 1) (Fin 10)" using c[of 0] by simp
  moreover have "tex' 1 = DataPoint (Fin 1) (Fin 10)" using c[of 1] by simp
  moreover have "tex' 2 = DataPoint (Fin 2) (Fin 20)" using c[of 2] by simp
  moreover have "tex' 3 = DataPoint (Fin 2) (Fin 20)" using c[of 3] by simp
  ultimately show ?thesis using h w3 t by blast
qed

section \<open>The segment chain\<close>

subsection \<open>Segment creation at the capacity boundary\<close>

lemma CAP_values:
  "BUFFER_POINT_CAPACITY = 524288" "BUFFER_INTERVAL_CAPACITY = 524286"
  by (simp_all add: BUFFER_INTERVAL_CAPACITY_def BUFFER_POINT_CAPACITY_def
        BUFFER_TEXTURE_WIDTH_def BUFFER_TEXTURE_HEIGHT_def)

lemma syncPoints_at_last:
  assumes "segments s = ts @ [t]" "items (series_data s) \<noteq> []"
    and "sync_rows start n bufferPos (int (length (items (series_data s)))) = (rowStart, rowEnd)"
    and "0 \<le> rowStart" "rowStart \<le> rowEnd" "rowEnd \<le> BUFFER_TEXTURE_HEIGHT"
  shows "syncPoints_at (length (segments s) - 1) start n bufferPos s =
           Inr (s\<lparr>segments := ts @
                  [\<lambda>p. if rowStart * BUFFER_TEXTURE_WIDTH \<le> p \<and> p < rowEnd * BUFFER_TEXTURE_WIDTH
                        then cell_value (items (series_data s)) start bufferPos p else t p]\<rparr>)"
  using assms(1) syncPoints_closed[OF assms(2-6), of t]
  by (simp add: syncPoints_at_def)

lemma first_sync:
  assumes len: "length xs = 524286"
  shows "syncBuffer (new_SeriesVertexArray (push xs (new_DataPointsBuffer []))) =
           Inr \<lparr>segments = [first_texture xs], validStart = 1, validEnd = 524287,
                series_data = \<lparr>items = xs, pushed_back = 524286, pushed_front = 0,
                                poped_back = 0, poped_front = 0\<rparr>,
                deleted = 0\<rparr>"
proof -
  let ?d = "\<lparr>items = xs, pushed_back = 524286, pushed_front = 0,
             poped_back = 0, poped_front = 0\<rparr>"
  have d: "push xs (new_DataPointsBuffer []) = ?d"
    using len by (simp add: push_def new_DataPointsBuffer_def)
  have bl: "blength ?d = 524286" using len by (simp add: blength_def)
  let ?sA = "\<lparr>segments = [new_texture], validStart = 1, validEnd = 1,
              series_data = ?d, deleted = 0\<rparr>"
  have sb: "syncBuffer (new_SeriesVertexArray ?d) = pushBack_loop 524286 ?sA"
    by (simp add: syncBuffer_def new_SeriesVertexArray_def deinit_def bl Let_def
          pushBack_def newArray_back_def)
  have ne: "items (series_data ?sA) \<noteq> []" using len by auto
  have sr: "sync_rows 0 524286 1 (int (length (items (series_data ?sA)))) = (0, 2048)"
    using len by (simp add: sync_rows_def Let_def BUFFER_TEXTURE_WIDTH_def BUFFER_TEXTURE_HEIGHT_def)
  have sg: "segments ?sA = [] @ [new_texture]" by simp
  have sp: "syncPoints_at (length (segments ?sA) - 1) 0 524286 1 ?sA =
            Inr (?sA\<lparr>segments := [] @ [first_texture xs]\<rparr>)"
  proof -
    have it: "items (series_data ?sA) = xs" by simp
    have "syncPoints_at (length (segments ?sA) - 1) 0 524286 1 ?sA =
            Inr (?sA\<lparr>segments := [] @
               [\<lambda>p. if 0 * BUFFER_TEXTURE_WIDTH \<le> p \<and> p < 2048 * BUFFER_TEXTURE_WIDTH
                     then cell_value (items (series_data ?sA)) 0 1 p else new_texture p]\<rparr>)"
      by (rule syncPoints_at_last[OF sg ne sr]) (simp_all add: BUFFER_TEXTURE_HEIGHT_def)
    then show ?thesis unfolding it first_texture_def .
  qed
  have sp': "syncPoints_at 0 0 524286 1 ?sA = Inr (?sA\<lparr>segments := [first_texture xs]\<rparr>)"
    using sp by simp
  have n: "min (BUFFER_POINT_CAPACITY - validEnd ?sA) 524286 = 524286"
    by (simp add: CAP_values)
  have st: "blength (series_data ?sA) - 524286 = 0" using bl by simp
  show ?thesis
    unfolding d sb
    apply (subst pushBack_loop.simps)
    apply (simp add: CAP_values bl sp' Let_def)
    done
qed

lemma second_sync:
  assumes len: "length xs = 524286"
  shows "syncBuffer
           (\<lparr>segments = [first_texture xs], validStart = 1, validEnd = 524287,
             series_data = \<lparr>items = xs, pushed_back = 524286, pushed_front = 0,
                             poped_back = 0, poped_front = 0\<rparr>,
             deleted = 0\<rparr>
            \<lparr>series_data := push [x] (synced \<lparr>items = xs, pushed_back = 524286, pushed_front = 0,
                             poped_back = 0, poped_front = 0\<rparr>)\<rparr>) =
           Inr \<lparr>segments = [first_texture2 xs x, second_texture xs x],
                validStart = 1, validEnd = 2,
                series_data = \<lparr>items = xs @ [x], pushed_back = 1, pushed_front = 0,
                                poped_back = 0, poped_front = 0\<rparr>,
                deleted = 0\<rparr>"
proof -
  let ?d = "\<lparr>items = xs @ [x], pushed_back = 1, pushed_front = 0,
             poped_back = 0, poped_front = 0\<rparr>"
  let ?s = "\<lparr>segments = [first_texture xs], validStart = 1, validEnd = 524287,
             series_data = ?d, deleted = 0\<rparr>"
  have d: "push [x] (synced \<lparr>items = xs, pushed_back = 524286, pushed_front = 0,
                             poped_back = 0, poped_front = 0\<rparr>) = ?d"
    by (simp add: push_def synced_def)
  have bl: "blength ?d = 524287" using len by (simp add: blength_def)
  have sb: "syncBuffer ?s = pushBack_loop 1 ?s"
    by (simp add: syncBuffer_def bl Let_def popFront_def popBack_def pushFront_def pushBack_def)
  \<comment> \<open>first iteration: the last free cell of the first segment\<close>
  have ne: "items (series_data ?s) \<noteq> []" by simp
  have it: "items (series_data ?s) = xs @ [x]" by simp
  have sr1: "sync_rows 524286 1 524287 (int (length (items (series_data ?s)))) = (2047, 2048)"
    using len by (simp add: sync_rows_def Let_def BUFFER_TEXTURE_WIDTH_def BUFFER_TEXTURE_HEIGHT_def)
  have sg1: "segments ?s = [] @ [first_texture xs]" by simp
  have "syncPoints_at (length (segments ?s) - 1) 524286 1 524287 ?s =
          Inr (?s\<lparr>segments := [] @
             [\<lambda>p. if 2047 * BUFFER_TEXTURE_WIDTH \<le> p \<and> p < 2048 * BUFFER_TEXTURE_WIDTH
                   then cell_value (items (series_data ?s)) 524286 524287 p
                   else first_texture xs p]\<rparr>)"
    by (rule syncPoints_at_last[OF sg1 ne sr1]) (simp_all add: BUFFER_TEXTURE_HEIGHT_def)
  then have sp1: "syncPoints_at 0 524286 1 524287 ?s =
                  Inr (?s\<lparr>segments := [first_texture2 xs x]\<rparr>)"
    unfolding it first_texture2_def by simp
  let ?s2 = "\<lparr>segments = [first_texture2 xs x, new_texture], validStart = 1, validEnd = 0,
              series_data = ?d, deleted = 0\<rparr>"
  have step1: "pushBack_loop 1 ?s = pushBack_loop 2 ?s2"
    apply (subst pushBack_loop.simps)
    apply (simp add: CAP_values bl sp1 Let_def newArray_back_def)
    done
  \<comment> \<open>second iteration: the first two cells of the new segment\<close>
  have ne2: "items (series_data ?s2) \<noteq> []" by simp
  have it2: "items (series_data ?s2) = xs @ [x]" by simp
  have sr2: "sync_rows 524285 2 0 (int (length (items (series_data ?s2)))) = (0, 1)"
    using len by (simp add: sync_rows_def Let_def BUFFER_TEXTURE_WIDTH_def BUFFER_TEXTURE_HEIGHT_def)
  have sg2: "segments ?s2 = [first_texture2 xs x] @ [new_texture]" by simp
  have "syncPoints_at (length (segments ?s2) - 1) 524285 2 0 ?s2 =
          Inr (?s2\<lparr>segments := [first_texture2 xs x] @
             [\<lambda>p. if 0 * BUFFER_TEXTURE_WIDTH \<le> p \<and> p < 1 * BUFFER_TEXTURE_WIDTH
                   then cell_value (items (series_data ?s2)) 524285 0 p
                   else new_texture p]\<rparr>)"
    by (rule syncPoints_at_last[OF sg2 ne2 sr2]) (simp_all add: BUFFER_TEXTURE_HEIGHT_def)
  then have sp2: "syncPoints_at (Suc 0) 524285 2 0 ?s2 =
                  Inr (?s2\<lparr>segments := [first_texture2 xs x, second_texture xs x]\<rparr>)"
    unfolding it2 second_texture_def by simp
  have step2: "pushBack_loop 2 ?s2 =
               Inr \<lparr>segments = [first_texture2 xs x, second_texture xs x],
                validStart = 1, validEnd = 2, series_data = ?d, deleted = 0\<rparr>"
    apply (subst pushBack_loop.simps)
    apply (simp add: CAP_values bl sp2 Let_def)
    done
  show ?thesis unfolding d by (simp add: sb step1 step2)
qed

lemma texture_cells:
  assumes len: "length xs = 524286"
  shows "last xs = xs ! 524285"
    "second_texture xs x 0 = last xs" "second_texture xs x 1 = x"
    "first_texture2 xs x 524286 = last xs"
    "first_texture2 xs x 524287 = x"
    "1 \<le> p \<and> p \<le> int (length xs) \<Longrightarrow> first_texture xs p = xs ! nat (p - 1)"
    "1 \<le> p \<and> p \<le> int (length xs) \<Longrightarrow> first_texture2 xs x p = xs ! nat (p - 1)"
proof -
  have ne: "xs \<noteq> []" using len by auto
  show l: "last xs = xs ! 524285" using len ne by (simp add: last_conv_nth)
  show "second_texture xs x 0 = last xs"
    using len by (simp add: second_texture_def cell_value_def source_index_def
          BUFFER_TEXTURE_WIDTH_def nth_append l)
  show "second_texture xs x 1 = x"
    using len by (simp add: second_texture_def cell_value_def source_index_def
          BUFFER_TEXTURE_WIDTH_def nth_append)
  show "first_texture2 xs x 524286 = last xs"
    using len by (simp add: first_texture2_def cell_value_def source_index_def
          BUFFER_TEXTURE_WIDTH_def CAP_values nth_append l)
  show "first_texture2 xs x 524287 = x"
    using len by (simp add: first_texture2_def cell_value_def source_index_def
          BUFFER_TEXTURE_WIDTH_def CAP_values nth_append)
  show a: "1 \<le> p \<and> p \<le> int (length xs) \<Longrightarrow> first_texture xs p = xs ! nat (p - 1)"
    using len by (simp add: first_texture_def cell_value_def source_index_def
          BUFFER_TEXTURE_WIDTH_def)
  show "1 \<le> p \<and> p \<le> int (length xs) \<Longrightarrow> first_texture2 xs x p = xs ! nat (p - 1)"
    using len a by (auto simp add: first_texture2_def cell_value_def source_index_def
          BUFFER_TEXTURE_WIDTH_def nth_append)
qed

lemma second_sync':
  assumes len: "length xs = 524286"
  shows "syncBuffer
           \<lparr>segments = [first_texture xs], validStart = 1, validEnd = 524287,
             series_data = push [x] (synced \<lparr>items = xs, pushed_back = 524286, pushed_front = 0,
                             poped_back = 0, poped_front = 0\<rparr>),
             deleted = 0\<rparr> =
           Inr \<lparr>segments = [first_texture2 xs x, second_texture xs x],
                validStart = 1, validEnd = 2,
                series_data = \<lparr>items = xs @ [x], pushed_back = 1, pushed_front = 0,
                                poped_back = 0, poped_front = 0\<rparr>,
                deleted = 0\<rparr>"
  using second_sync[OF len, of x] by simp

text \<open>
  C3. On a new segment chain, pushing \<open>CAP - 2 = 524286\<close> points and running
  \<^verbatim>\<open>syncBuffer\<close> returns with exactly one segment, holding the points in the cells
  \<open>1 .. CAP - 2\<close>; the interval ending at the last point has the index
  \<open>BUFFER_INTERVAL_CAPACITY\<close>, so no interval capacity is left. After the counters are
  cleared, pushing one further point and running \<^verbatim>\<open>syncBuffer\<close> returns with two
  segments, no segment deleted, and the last two points of the sequence are held both by
  the last two cells of the first segment and by the first two cells of the second.
\<close>

theorem segment_creation_boundary:
  assumes "length xs = 524286"
  shows "case syncBuffer (new_SeriesVertexArray (push xs (new_DataPointsBuffer []))) of
           Inl e \<Rightarrow> False
         | Inr s1 \<Rightarrow>
             length (segments s1) = 1 \<and> validStart s1 = 1 \<and>
             validEnd s1 = BUFFER_POINT_CAPACITY - 1 \<and>
             (int (length xs) - 1) + validStart s1 = BUFFER_INTERVAL_CAPACITY \<and>
             (\<forall>p. 1 \<le> p \<and> p \<le> int (length xs) \<longrightarrow> (segments s1 ! 0) p = xs ! nat (p - 1)) \<and>
             (case syncBuffer (s1\<lparr>series_data := push [x] (synced (series_data s1))\<rparr>) of
                Inl e \<Rightarrow> False
              | Inr s2 \<Rightarrow>
                  length (segments s2) = 2 \<and> validStart s2 = 1 \<and> validEnd s2 = 2 \<and>
                  deleted s2 = 0 \<and>
                  (segments s2 ! 1) 0 = last xs \<and> (segments s2 ! 1) 1 = x \<and>
                  (segments s2 ! 0) (BUFFER_POINT_CAPACITY - 2) = last xs \<and>
                  (segments s2 ! 0) (BUFFER_POINT_CAPACITY - 1) = x \<and>
                  (\<forall>p. 1 \<le> p \<and> p \<le> int (length xs) \<longrightarrow>
                       (segments s2 ! 0) p = xs ! nat (p - 1)))"
  using assms
  by (simp add: first_sync[OF assms] second_sync'[OF assms] texture_cells(2-7)[OF assms] CAP_values)

theorem segment_creation_boundary_witness:
  "length (replicate 524286 (DataPoint (Fin 1) (Fin 2))) = 524286 \<and>
   (case syncBuffer (new_SeriesVertexArray
            (push (replicate 524286 (DataPoint (Fin 1) (Fin 2))) (new_DataPointsBuffer []))) of
           Inl e \<Rightarrow> False
         | Inr s1 \<Rightarrow>
             length (segments s1) = 1 \<and> validStart s1 = 1 \<and>
             validEnd s1 = BUFFER_POINT_CAPACITY - 1 \<and>
             (int (length (replicate 524286 (DataPoint (Fin 1) (Fin 2)))) - 1) + validStart s1
               = BUFFER_INTERVAL_CAPACITY \<and>
             (\<forall>p. 1 \<le> p \<and> p \<le> int (length (replicate 524286 (DataPoint (Fin 1) (Fin 2)))) \<longrightarrow>
                  (segments s1 ! 0) p = replicate 524286 (DataPoint (Fin 1) (Fin 2)) ! nat (p - 1)) \<and>
             (case syncBuffer (s1\<lparr>series_data :=
                       push [DataPoint (Fin 3) (Fin 4)] (synced (series_data s1))\<rparr>) of
                Inl e \<Rightarrow> False
              | Inr s2 \<Rightarrow>
                  length (segments s2) = 2 \<and> validStart s2 = 1 \<and> validEnd s2 = 2 \<and>
                  deleted s2 = 0 \<and>
                  (segments s2 ! 1) 0 = last (replicate 524286 (DataPoint (Fin 1) (Fin 2))) \<and>
                  (segments s2 ! 1) 1 = DataPoint (Fin 3) (Fin 4) \<and>
                  (segments s2 ! 0) (BUFFER_POINT_CAPACITY - 2) =
                     last (replicate 524286 (DataPoint (Fin 1) (Fin 2))) \<and>
                  (segments s2 ! 0) (BUFFER_POINT_CAPACITY - 1) = DataPoint (Fin 3) (Fin 4) \<and>
                  (\<forall>p. 1 \<le> p \<and> p \<le> int (length (replicate 524286 (DataPoint (Fin 1) (Fin 2)))) \<longrightarrow>
                       (segments s2 ! 0) p =
                         replicate 524286 (DataPoint (Fin 1) (Fin 2)) ! nat (p - 1))))"
proof -
  have h: "length (replicate 524286 (DataPoint (Fin 1) (Fin 2))) = 524286" by simp
  from h segment_creation_boundary[OF h, of "DataPoint (Fin 3) (Fin 4)"]
  show ?thesis by (rule conjI)
qed

subsection \<open>Teardown\<close>

lemma result_state_simps:
  "result_state (Inr s) = s" "result_state (Inl (e, s)) = s"
  by (simp_all add: result_state_def)

lemma syncPoints_at_frame:
  "series_data (result_state (syncPoints_at i start n bufferPos s)) = series_data s \<and>
   deleted (result_state (syncPoints_at i start n bufferPos s)) = deleted s"
  by (simp add: syncPoints_at_def result_state_def split: sum.splits)

lemma pushBack_loop_frame:
  "series_data (result_state (pushBack_loop k s)) = series_data s \<and>
   deleted (result_state (pushBack_loop k s)) = deleted s"
proof (induction k s rule: pushBack_loop.induct)
  case (1 k s)
  let ?n = "min (BUFFER_POINT_CAPACITY - validEnd s) k"
  let ?r = "syncPoints_at (length (segments s) - 1) (blength (series_data s) - k) ?n (validEnd s) s"
  note f = syncPoints_at_frame[of "length (segments s) - 1" "blength (series_data s) - k" ?n
             "validEnd s" s]
  show ?case
  proof (cases ?r)
    case (Inl x)
    have e: "pushBack_loop k s = Inl x"
      by (subst pushBack_loop.simps) (simp only: Let_def Inl sum.case)
    from f[unfolded Inl] show ?thesis unfolding e by (simp add: result_state_def split: prod.splits)
  next
    case (Inr s1)
    let ?s2 = "s1\<lparr>validEnd := validEnd s1 + ?n\<rparr>"
    from f[unfolded Inr] have f1: "series_data s1 = series_data s" "deleted s1 = deleted s"
      by (simp_all add: result_state_def)
    show ?thesis
    proof (cases "validEnd ?s2 < BUFFER_POINT_CAPACITY")
      case True
      have e: "pushBack_loop k s = Inr ?s2"
        by (subst pushBack_loop.simps) (simp only: Let_def Inr sum.case True if_True)
      show ?thesis unfolding e using f1 by (simp add: result_state_def)
    next
      case False
      have ih: "series_data (result_state (pushBack_loop
                   (k - (BUFFER_INTERVAL_CAPACITY - validEnd s1)) (newArray_back ?s2))) =
                series_data (newArray_back ?s2) \<and>
                deleted (result_state (pushBack_loop
                   (k - (BUFFER_INTERVAL_CAPACITY - validEnd s1)) (newArray_back ?s2))) =
                deleted (newArray_back ?s2)"
        using "1.IH"[OF refl Inr refl refl False] .
      have e: "pushBack_loop k s = pushBack_loop
                   (k - (BUFFER_INTERVAL_CAPACITY - validEnd s1)) (newArray_back ?s2)"
        by (subst pushBack_loop.simps) (simp only: Let_def Inr sum.case False if_False)
      show ?thesis unfolding e using ih f1 by (simp add: newArray_back_def)
    qed
  qed
qed

lemma pushFront_loop_frame:
  "series_data (result_state (pushFront_loop k s)) = series_data s \<and>
   deleted (result_state (pushFront_loop k s)) = deleted s"
proof (induction k s rule: pushFront_loop.induct)
  case (1 k s)
  let ?n = "min (validStart s) k"
  let ?r = "syncPoints_at 0 (k - ?n) ?n (validStart s - ?n) s"
  note f = syncPoints_at_frame[of 0 "k - ?n" ?n "validStart s - ?n" s]
  show ?case
  proof (cases ?r)
    case (Inl x)
    have e: "pushFront_loop k s = Inl x"
      by (subst pushFront_loop.simps) (simp only: Let_def Inl sum.case)
    from f[unfolded Inl] show ?thesis unfolding e
      by (simp add: result_state_def split: prod.splits)
  next
    case (Inr s1)
    let ?s2 = "s1\<lparr>validStart := validStart s1 - ?n\<rparr>"
    from f[unfolded Inr] have f1: "series_data s1 = series_data s" "deleted s1 = deleted s"
      by (simp_all add: result_state_def)
    show ?thesis
    proof (cases "validStart ?s2 > 0")
      case True
      have e: "pushFront_loop k s = Inr ?s2"
        by (subst pushFront_loop.simps) (simp only: Let_def Inr sum.case True if_True)
      show ?thesis unfolding e using f1 by (simp add: result_state_def)
    next
      case False
      let ?k1 = "k - (validStart s1 - (BUFFER_POINT_CAPACITY - BUFFER_INTERVAL_CAPACITY))"
      have ih: "series_data (result_state (pushFront_loop ?k1 (newArray_front ?s2))) =
                series_data (newArray_front ?s2) \<and>
                deleted (result_state (pushFront_loop ?k1 (newArray_front ?s2))) =
                deleted (newArray_front ?s2)"
        using "1.IH"[OF refl Inr refl refl False] .
      have e: "pushFront_loop k s = pushFront_loop ?k1 (newArray_front ?s2)"
        by (subst pushFront_loop.simps) (simp only: Let_def Inr sum.case False if_False)
      show ?thesis unfolding e using ih f1 by (simp add: newArray_front_def)
    qed
  qed
qed

lemma pushBack_frame:
  "series_data (result_state (pushBack s)) = series_data s \<and>
   deleted (result_state (pushBack s)) = deleted s"
  by (simp add: pushBack_def Let_def pushBack_loop_frame newArray_back_def result_state_simps)

lemma pushFront_frame:
  "series_data (result_state (pushFront s)) = series_data s \<and>
   deleted (result_state (pushFront s)) = deleted s"
  by (simp add: pushFront_def Let_def pushFront_loop_frame newArray_front_def result_state_simps)

subsection \<open>The push loops return\<close>

lemma sync_rows_ordered:
  assumes "0 \<le> n" and "sync_rows start n bufferPos len = (rowStart, rowEnd)"
  shows "rowStart \<le> rowEnd"
proof -
  have b: "bufferPos div 256 \<le> - ((- (bufferPos + n)) div 256)" using assms(1) by linarith
  show ?thesis using assms(2) b
    by (auto simp: sync_rows_def Let_def BUFFER_TEXTURE_WIDTH_def BUFFER_TEXTURE_HEIGHT_def
             split: if_splits)
qed

lemma syncPoints_at_returns:
  assumes "i < length (segments s)" "items (series_data s) \<noteq> []" "0 \<le> n"
  shows "\<exists>t. syncPoints_at i start n bufferPos s = Inr (s\<lparr>segments := (segments s)[i := t]\<rparr>)"
proof -
  obtain rs re where sr: "sync_rows start n bufferPos (int (length (items (series_data s)))) = (rs, re)"
    by (cases "sync_rows start n bufferPos (int (length (items (series_data s))))") auto
  have le: "rs \<le> re" by (rule sync_rows_ordered[OF assms(3) sr])
  have "syncPoints_at i start n bufferPos s = Inr (s\<lparr>segments := (segments s)
               [i := texSubImage2D rs (re - rs)
                      (\<lambda>k. if 0 \<le> k \<and> k < (re - rs) * BUFFER_TEXTURE_WIDTH
                           then cell_value (items (series_data s)) start
                                 bufferPos (k + rs * BUFFER_TEXTURE_WIDTH)
                           else new_texture k)
                      (segments s ! i)]\<rparr>)"
    using assms(1) le
    by (simp add: syncPoints_at_def syncPoints_result[OF assms(2) sr])
  then show ?thesis by blast
qed

lemma pushBack_loop_returns:
  "0 \<le> k \<Longrightarrow> validEnd s \<le> BUFFER_POINT_CAPACITY \<Longrightarrow> segments s \<noteq> [] \<Longrightarrow>
   items (series_data s) \<noteq> [] \<Longrightarrow>
   \<exists>s'. pushBack_loop k s = Inr s' \<and> segments s' \<noteq> []"
proof (induction k s rule: pushBack_loop.induct)
  case (1 k s)
  let ?n = "min (BUFFER_POINT_CAPACITY - validEnd s) k"
  let ?i = "length (segments s) - 1"
  have n0: "0 \<le> ?n" using "1.prems" by simp
  have i: "?i < length (segments s)" using "1.prems" by simp
  obtain t where r: "syncPoints_at ?i (blength (series_data s) - k) ?n (validEnd s) s =
      Inr (s\<lparr>segments := (segments s)[?i := t]\<rparr>)"
    using syncPoints_at_returns[OF i "1.prems"(4) n0] by blast
  let ?s1 = "s\<lparr>segments := (segments s)[?i := t]\<rparr>"
  let ?s2 = "?s1\<lparr>validEnd := validEnd ?s1 + ?n\<rparr>"
  show ?case
  proof (cases "validEnd ?s2 < BUFFER_POINT_CAPACITY")
    case True
    have e: "pushBack_loop k s = Inr ?s2"
      by (subst pushBack_loop.simps) (simp only: Let_def r sum.case True if_True)
    show ?thesis unfolding e using "1.prems" by simp
  next
    case False
    let ?k1 = "k - (BUFFER_INTERVAL_CAPACITY - validEnd ?s1)"
    have e: "pushBack_loop k s = pushBack_loop ?k1 (newArray_back ?s2)"
      by (subst pushBack_loop.simps) (simp only: Let_def r sum.case False if_False)
    have k1: "0 \<le> ?k1" using False "1.prems"
      by (simp add: BUFFER_INTERVAL_CAPACITY_def min_def split: if_splits)
    have ih: "\<exists>s'. pushBack_loop ?k1 (newArray_back ?s2) = Inr s' \<and> segments s' \<noteq> []"
      apply (rule "1.IH"[OF refl r refl refl False k1])
      using "1.prems" by (simp_all add: newArray_back_def BUFFER_POINT_CAPACITY_def
          BUFFER_TEXTURE_WIDTH_def BUFFER_TEXTURE_HEIGHT_def)
    show ?thesis unfolding e by (rule ih)
  qed
qed

lemma pushFront_loop_returns:
  "0 \<le> k \<Longrightarrow> 0 \<le> validStart s \<Longrightarrow> segments s \<noteq> [] \<Longrightarrow>
   items (series_data s) \<noteq> [] \<Longrightarrow>
   \<exists>s'. pushFront_loop k s = Inr s' \<and> segments s' \<noteq> []"
proof (induction k s rule: pushFront_loop.induct)
  case (1 k s)
  let ?n = "min (validStart s) k"
  have n0: "0 \<le> ?n" using "1.prems" by simp
  have i: "0 < length (segments s)" using "1.prems" by simp
  obtain t where r: "syncPoints_at 0 (k - ?n) ?n (validStart s - ?n) s =
      Inr (s\<lparr>segments := (segments s)[0 := t]\<rparr>)"
    using syncPoints_at_returns[OF i "1.prems"(4) n0] by blast
  let ?s1 = "s\<lparr>segments := (segments s)[0 := t]\<rparr>"
  let ?s2 = "?s1\<lparr>validStart := validStart ?s1 - ?n\<rparr>"
  show ?case
  proof (cases "validStart ?s2 > 0")
    case True
    have e: "pushFront_loop k s = Inr ?s2"
      by (subst pushFront_loop.simps) (simp only: Let_def r sum.case True if_True)
    show ?thesis unfolding e using "1.prems" by simp
  next
    case False
    let ?k1 = "k - (validStart ?s1 - (BUFFER_POINT_CAPACITY - BUFFER_INTERVAL_CAPACITY))"
    have e: "pushFront_loop k s = pushFront_loop ?k1 (newArray_front ?s2)"
      by (subst pushFront_loop.simps) (simp only: Let_def r sum.case False if_False)
    have k1: "0 \<le> ?k1" using False "1.prems"
      by (simp add: BUFFER_INTERVAL_CAPACITY_def min_def split: if_splits)
    have ih: "\<exists>s'. pushFront_loop ?k1 (newArray_front ?s2) = Inr s' \<and> segments s' \<noteq> []"
      apply (rule "1.IH"[OF refl r refl refl False k1])
      using "1.prems" by (simp_all add: newArray_front_def BUFFER_POINT_CAPACITY_def
          BUFFER_TEXTURE_WIDTH_def BUFFER_TEXTURE_HEIGHT_def)
    show ?thesis unfolding e by (rule ih)
  qed
qed

subsection \<open>The teardown path\<close>

text \<open>
  C4 (as amended). Whenever \<^verbatim>\<open>syncBuffer\<close> finds a synced length below 2, every
  segment is deleted and the chain emptied by \<^verbatim>\<open>deinit\<close>, which itself leaves the
  sequence and its counters untouched; \<^verbatim>\<open>syncBuffer\<close> then sets \<open>poped_front\<close> and
  \<open>poped_back\<close> to zero. With fewer than 2 points nothing else happens: the chain stays
  empty and \<open>pushed_front\<close>, \<open>pushed_back\<close> keep their values. With 2 points or more
  \<open>pushed_back\<close> (or \<open>pushed_front\<close>) is set to the length and the chain is built anew:
  the call returns, with a chain that is not empty.
\<close>

theorem syncBuffer_teardown:
  assumes "blength (series_data s) - pushed_back (series_data s) - pushed_front (series_data s) < 2"
  shows "series_data (deinit s) = series_data s \<and> segments (deinit s) = [] \<and>
         deleted (deinit s) = deleted s + length (segments s) \<and>
         deleted (result_state (syncBuffer s)) = deleted s + length (segments s) \<and>
         poped_front (series_data (result_state (syncBuffer s))) = 0 \<and>
         poped_back (series_data (result_state (syncBuffer s))) = 0 \<and>
         (blength (series_data s) < 2 \<longrightarrow>
            syncBuffer s =
              Inr ((deinit s)\<lparr>series_data :=
                     (series_data s)\<lparr>poped_back := 0, poped_front := 0\<rparr>\<rparr>)) \<and>
         (2 \<le> blength (series_data s) \<longrightarrow>
            series_data (result_state (syncBuffer s)) =
              (if pushed_back (series_data s) > pushed_front (series_data s)
               then (series_data s)\<lparr>poped_back := 0, poped_front := 0,
                                     pushed_back := blength (series_data s)\<rparr>
               else (series_data s)\<lparr>poped_back := 0, poped_front := 0,
                                     pushed_front := blength (series_data s)\<rparr>)) \<and>
         (2 \<le> blength (series_data s) \<longrightarrow>
            (\<exists>s'. syncBuffer s = Inr s' \<and> segments s' \<noteq> [] \<and>
                  deleted s' = deleted s + length (segments s) \<and>
                  series_data s' =
                    (if pushed_back (series_data s) > pushed_front (series_data s)
                     then (series_data s)\<lparr>poped_back := 0, poped_front := 0,
                                           pushed_back := blength (series_data s)\<rparr>
                     else (series_data s)\<lparr>poped_back := 0, poped_front := 0,
                                           pushed_front := blength (series_data s)\<rparr>)))"
proof -
  let ?d = "series_data s"
  let ?s1 = "(deinit s)\<lparr>series_data := ?d\<lparr>poped_back := 0, poped_front := 0\<rparr>\<rparr>"
  have bl: "blength (?d\<lparr>poped_back := 0, poped_front := 0\<rparr>) = blength ?d"
    by (simp add: blength_def)
  have sb: "syncBuffer s =
        (if 2 \<le> blength ?d then
           (if pushed_back ?d > pushed_front ?d
            then pushBack (?s1\<lparr>series_data :=
                    ?d\<lparr>poped_back := 0, poped_front := 0, pushed_back := blength ?d\<rparr>\<rparr>)
            else pushFront (?s1\<lparr>series_data :=
                    ?d\<lparr>poped_back := 0, poped_front := 0, pushed_front := blength ?d\<rparr>\<rparr>))
         else Inr ?s1)"
    using assms by (simp add: syncBuffer_def Let_def deinit_def bl)
  have di: "series_data (deinit s) = series_data s \<and> segments (deinit s) = [] \<and>
         deleted (deinit s) = deleted s + length (segments s)"
    by (simp add: deinit_def)
  have small: "blength ?d < 2 \<longrightarrow> syncBuffer s = Inr ?s1"
    by (simp add: sb)
  have fr: "series_data (result_state (syncBuffer s)) =
              (if 2 \<le> blength ?d then
                 (if pushed_back ?d > pushed_front ?d
                  then ?d\<lparr>poped_back := 0, poped_front := 0, pushed_back := blength ?d\<rparr>
                  else ?d\<lparr>poped_back := 0, poped_front := 0, pushed_front := blength ?d\<rparr>)
               else ?d\<lparr>poped_back := 0, poped_front := 0\<rparr>)"
    "deleted (result_state (syncBuffer s)) = deleted s + length (segments s)"
    unfolding sb by (simp_all add: pushBack_frame pushFront_frame result_state_simps deinit_def)
  have pz: "poped_front (series_data (result_state (syncBuffer s))) = 0"
    "poped_back (series_data (result_state (syncBuffer s))) = 0"
    unfolding fr(1) by simp_all
  have big: "2 \<le> blength ?d \<longrightarrow>
            series_data (result_state (syncBuffer s)) =
              (if pushed_back ?d > pushed_front ?d
               then ?d\<lparr>poped_back := 0, poped_front := 0, pushed_back := blength ?d\<rparr>
               else ?d\<lparr>poped_back := 0, poped_front := 0, pushed_front := blength ?d\<rparr>)"
    unfolding fr(1) by simp
  have ret: "2 \<le> blength ?d \<longrightarrow>
            (\<exists>s'. syncBuffer s = Inr s' \<and> segments s' \<noteq> [] \<and>
                  deleted s' = deleted s + length (segments s) \<and>
                  series_data s' =
                    (if pushed_back ?d > pushed_front ?d
                     then ?d\<lparr>poped_back := 0, poped_front := 0, pushed_back := blength ?d\<rparr>
                     else ?d\<lparr>poped_back := 0, poped_front := 0, pushed_front := blength ?d\<rparr>))"
  proof
    assume two: "2 \<le> blength ?d"
    then have ne: "items ?d \<noteq> []" by (auto simp: blength_def)
    have "\<exists>s'. syncBuffer s = Inr s' \<and> segments s' \<noteq> []"
    proof (cases "pushed_back ?d > pushed_front ?d")
      case True
      let ?t = "(newArray_back (?s1\<lparr>series_data :=
                    ?d\<lparr>poped_back := 0, poped_front := 0, pushed_back := blength ?d\<rparr>\<rparr>))
                  \<lparr>validStart := 1, validEnd := 1\<rparr>"
      have e: "syncBuffer s = pushBack_loop (blength ?d) ?t"
        unfolding sb using two True by (simp add: pushBack_def Let_def deinit_def)
      have "\<exists>s'. pushBack_loop (blength ?d) ?t = Inr s' \<and> segments s' \<noteq> []"
        apply (rule pushBack_loop_returns)
        using two ne by (simp_all add: newArray_back_def BUFFER_POINT_CAPACITY_def
            BUFFER_TEXTURE_WIDTH_def BUFFER_TEXTURE_HEIGHT_def)
      then show ?thesis unfolding e .
    next
      case False
      let ?t = "(newArray_front (?s1\<lparr>series_data :=
                    ?d\<lparr>poped_back := 0, poped_front := 0, pushed_front := blength ?d\<rparr>\<rparr>))
                  \<lparr>validStart := BUFFER_POINT_CAPACITY - 1, validEnd := BUFFER_POINT_CAPACITY - 1\<rparr>"
      have e: "syncBuffer s = pushFront_loop (blength ?d) ?t"
        unfolding sb using two False by (simp add: pushFront_def Let_def deinit_def)
      have "\<exists>s'. pushFront_loop (blength ?d) ?t = Inr s' \<and> segments s' \<noteq> []"
        apply (rule pushFront_loop_returns)
        using two ne by (simp_all add: newArray_front_def BUFFER_POINT_CAPACITY_def
            BUFFER_TEXTURE_WIDTH_def BUFFER_TEXTURE_HEIGHT_def)
      then show ?thesis unfolding e .
    qed
    then obtain s' where s': "syncBuffer s = Inr s'" "segments s' \<noteq> []" by blast
    have rs: "result_state (syncBuffer s) = s'" unfolding s'(1) by (simp add: result_state_def)
    from fr(2) have d': "deleted s' = deleted s + length (segments s)" unfolding rs .
    from big two have sd: "series_data s' =
                    (if pushed_back ?d > pushed_front ?d
                     then ?d\<lparr>poped_back := 0, poped_front := 0, pushed_back := blength ?d\<rparr>
                     else ?d\<lparr>poped_back := 0, poped_front := 0, pushed_front := blength ?d\<rparr>)"
      unfolding rs by simp
    from s' d' sd show "\<exists>s'. syncBuffer s = Inr s' \<and> segments s' \<noteq> [] \<and>
                  deleted s' = deleted s + length (segments s) \<and>
                  series_data s' =
                    (if pushed_back ?d > pushed_front ?d
                     then ?d\<lparr>poped_back := 0, poped_front := 0, pushed_back := blength ?d\<rparr>
                     else ?d\<lparr>poped_back := 0, poped_front := 0, pushed_front := blength ?d\<rparr>)"
      by blast
  qed
  from di fr(2) pz small big ret show ?thesis by (intro conjI) simp_all
qed

text \<open>
  C4 as stated fails: a sequence that held two synced points and lost one at the front
  comes with \<open>poped_front = 1\<close>, and \<^verbatim>\<open>syncBuffer\<close> returns with \<open>poped_front = 0\<close>.
\<close>

theorem syncBuffer_teardown_counterexample:
  "blength \<lparr>items = [DataPoint (Fin 1) (Fin 2)], pushed_back = 0, pushed_front = 0,
            poped_back = 0, poped_front = 1\<rparr>
     - pushed_back \<lparr>items = [DataPoint (Fin 1) (Fin 2)], pushed_back = 0, pushed_front = 0,
            poped_back = 0, poped_front = 1\<rparr>
     - pushed_front \<lparr>items = [DataPoint (Fin 1) (Fin 2)], pushed_back = 0, pushed_front = 0,
            poped_back = 0, poped_front = 1\<rparr> < 2
   \<and> syncBuffer
       \<lparr>segments = [new_texture], validStart = 1, validEnd = 3,
        series_data = \<lparr>items = [DataPoint (Fin 1) (Fin 2)], pushed_back = 0, pushed_front = 0,
                        poped_back = 0, poped_front = 1\<rparr>,
        deleted = 0\<rparr> =
     Inr \<lparr>segments = [], validStart = 1, validEnd = 3,
          series_data = \<lparr>items = [DataPoint (Fin 1) (Fin 2)], pushed_back = 0, pushed_front = 0,
                          poped_back = 0, poped_front = 0\<rparr>,
          deleted = 1\<rparr>
   \<and> poped_front \<lparr>items = [DataPoint (Fin 1) (Fin 2)], pushed_back = 0, pushed_front = 0,
                   poped_back = 0, poped_front = 0\<rparr> \<noteq>
     poped_front \<lparr>items = [DataPoint (Fin 1) (Fin 2)], pushed_back = 0, pushed_front = 0,
                   poped_back = 0, poped_front = 1\<rparr>"
  by (simp add: syncBuffer_def deinit_def blength_def Let_def)

theorem syncBuffer_teardown_witness:
  "syncBuffer
       \<lparr>segments = [new_texture], validStart = 1, validEnd = 3,
        series_data = \<lparr>items = [DataPoint (Fin 1) (Fin 2)], pushed_back = 0, pushed_front = 0,
                        poped_back = 0, poped_front = 1\<rparr>,
        deleted = 0\<rparr> =
     Inr \<lparr>segments = [], validStart = 1, validEnd = 3,
          series_data = \<lparr>items = [DataPoint (Fin 1) (Fin 2)], pushed_back = 0, pushed_front = 0,
                          poped_back = 0, poped_front = 0\<rparr>,
          deleted = 1\<rparr>
   \<and> series_data (result_state (syncBuffer
       \<lparr>segments = [], validStart = 0, validEnd = 0,
        series_data = \<lparr>items = [DataPoint (Fin 1) (Fin 2), DataPoint (Fin 3) (Fin 4)],
                        pushed_back = 1, pushed_front = 1, poped_back = 0, poped_front = 0\<rparr>,
        deleted = 0\<rparr>)) =
     \<lparr>items = [DataPoint (Fin 1) (Fin 2), DataPoint (Fin 3) (Fin 4)],
      pushed_back = 1, pushed_front = 2, poped_back = 0, poped_front = 0\<rparr>
   \<and> (\<exists>s'. syncBuffer
       \<lparr>segments = [], validStart = 0, validEnd = 0,
        series_data = \<lparr>items = [DataPoint (Fin 1) (Fin 2), DataPoint (Fin 3) (Fin 4)],
                        pushed_back = 1, pushed_front = 1, poped_back = 0, poped_front = 0\<rparr>,
        deleted = 0\<rparr> = Inr s' \<and> segments s' \<noteq> [] \<and> deleted s' = 0 \<and>
        series_data s' =
          \<lparr>items = [DataPoint (Fin 1) (Fin 2), DataPoint (Fin 3) (Fin 4)],
           pushed_back = 1, pushed_front = 2, poped_back = 0, poped_front = 0\<rparr>)"
proof -
  let ?d1 = "\<lparr>items = [DataPoint (Fin 1) (Fin 2)], pushed_back = 0, pushed_front = 0,
              poped_back = 0, poped_front = 1\<rparr>"
  let ?s1 = "\<lparr>segments = [new_texture], validStart = 1, validEnd = 3,
              series_data = ?d1, deleted = 0\<rparr>"
  let ?d2 = "\<lparr>items = [DataPoint (Fin 1) (Fin 2), DataPoint (Fin 3) (Fin 4)],
              pushed_back = 1, pushed_front = 1, poped_back = 0, poped_front = 0\<rparr>"
  let ?s2 = "\<lparr>segments = [], validStart = 0, validEnd = 0, series_data = ?d2, deleted = 0\<rparr>"
  have b1: "blength (series_data ?s1) = 1" and b2: "blength (series_data ?s2) = 2"
    by (simp_all add: blength_def)
  have h1: "blength (series_data ?s1) - pushed_back (series_data ?s1)
              - pushed_front (series_data ?s1) < 2" unfolding b1 by simp
  have h2: "blength (series_data ?s2) - pushed_back (series_data ?s2)
              - pushed_front (series_data ?s2) < 2" unfolding b2 by simp
  have k1: "blength (series_data ?s1) < 2" unfolding b1 by simp
  have k2: "2 \<le> blength (series_data ?s2)" unfolding b2 by simp
  note w1 = syncBuffer_teardown[OF h1, THEN conjunct2, THEN conjunct2, THEN conjunct2,
              THEN conjunct2, THEN conjunct2, THEN conjunct2, THEN conjunct1, THEN mp, OF k1]
  note w2 = syncBuffer_teardown[OF h2, THEN conjunct2, THEN conjunct2, THEN conjunct2,
              THEN conjunct2, THEN conjunct2, THEN conjunct2, THEN conjunct2, THEN conjunct1,
              THEN mp, OF k2]
  note w3 = syncBuffer_teardown[OF h2, THEN conjunct2, THEN conjunct2, THEN conjunct2,
              THEN conjunct2, THEN conjunct2, THEN conjunct2, THEN conjunct2, THEN conjunct2,
              THEN mp, OF k2]
  have a: "syncBuffer ?s1 = Inr \<lparr>segments = [], validStart = 1, validEnd = 3,
          series_data = \<lparr>items = [DataPoint (Fin 1) (Fin 2)], pushed_back = 0, pushed_front = 0,
                          poped_back = 0, poped_front = 0\<rparr>,
          deleted = 1\<rparr>"
    unfolding w1 by (simp add: deinit_def)
  have b: "series_data (result_state (syncBuffer ?s2)) =
     \<lparr>items = [DataPoint (Fin 1) (Fin 2), DataPoint (Fin 3) (Fin 4)],
      pushed_back = 1, pushed_front = 2, poped_back = 0, poped_front = 0\<rparr>"
    unfolding w2 by (simp add: b2[simplified])
  have c: "\<exists>s'. syncBuffer ?s2 = Inr s' \<and> segments s' \<noteq> [] \<and> deleted s' = 0 \<and>
        series_data s' =
          \<lparr>items = [DataPoint (Fin 1) (Fin 2), DataPoint (Fin 3) (Fin 4)],
           pushed_back = 1, pushed_front = 2, poped_back = 0, poped_front = 0\<rparr>"
    using w3 by (simp add: b2[simplified])
  from a b c show ?thesis by (intro conjI)
qed


section \<open>The change-tracking sequence over all JavaScript values\<close>

subsection \<open>Rounding\<close>
























subsection \<open>Agreement of the two models on integers\<close>



lemma js_lt_num [simp]: "js_lt (num a) (num b) = (a < b)"
  by (simp add: num_def)

lemma js_gt_num [simp]: "js_gt (num a) (num b) = (b < a)"
  by (simp add: js_gt_def)

lemma js_le_num [simp]: "js_le (num a) (num b) = (a \<le> b)"
  by (auto simp: js_le_def num_def)

lemma js_eq_num [simp]: "js_eq (num a) (num b) = (a = b)"
  by (simp add: js_eq_def num_def)

lemma js_min2_num [simp]: "js_min2 (num a) (num b) = num (min a b)"
  by (simp add: js_min2_def num_def min_def)

lemma js_max2_num [simp]: "js_max2 (num a) (num b) = num (max a b)"
  by (simp add: js_max2_def num_def max_def)

lemma num_eq [simp]: "num a = num b \<longleftrightarrow> a = b"
  by (simp add: num_def)




lemma embed_sel [simp]:
  "items_js (embed b) = items b"
  "pushed_back_js (embed b) = num (pushed_back b)"
  "pushed_front_js (embed b) = num (pushed_front b)"
  "poped_back_js (embed b) = num (poped_back b)"
  "poped_front_js (embed b) = num (poped_front b)"
  by (simp_all add: embed_def)

lemma embed_upd [simp]:
  "(embed b)\<lparr>pushed_back_js := num x\<rparr> = embed (b\<lparr>pushed_back := x\<rparr>)"
  "(embed b)\<lparr>pushed_front_js := num x\<rparr> = embed (b\<lparr>pushed_front := x\<rparr>)"
  "(embed b)\<lparr>poped_back_js := num x\<rparr> = embed (b\<lparr>poped_back := x\<rparr>)"
  "(embed b)\<lparr>poped_front_js := num x\<rparr> = embed (b\<lparr>poped_front := x\<rparr>)"
  "(embed b)\<lparr>items_js := xs\<rparr> = embed (b\<lparr>items := xs\<rparr>)"
  by (simp_all add: embed_def)





























subsection \<open>Failed mutations\<close>





subsection \<open>The invariant of the counters\<close>





end
